theory Spec2Isabelle
  imports Complex_Main "HOL-Library.Word"
begin

section \<open>Data model of the firmware\<close>

text \<open>
  The firmware is one Arduino sketch, \<^verbatim>\<open>esp32-smartwatch-firmware.ino\<close>. Its globals
  become one record that every function takes and returns. Clock values are the 32-bit
  \<^verbatim>\<open>unsigned long\<close> of the ESP32, so differences of clock readings wrap around as in
  the source. \<^verbatim>\<open>float\<close> values are real numbers: the sketch only stores, compares and
  averages them. What the sketch writes to the modem and to the HTTP client is kept in two
  traces; diagnostic printing on \<^verbatim>\<open>Serial\<close> is left out.
\<close>

type_synonym millis = "32 word"

text \<open>The members of a \<^verbatim>\<open>sensors_event_t\<close> that the sketch reads: one triple.\<close>

record sensors_vec =
  vec_x :: real
  vec_y :: real
  vec_z :: real

record SensorData =
  hr :: real
  spo2 :: real
  accel_x :: real
  accel_y :: real
  accel_z :: real
  gyro_x :: real
  gyro_y :: real
  gyro_z :: real
  pending :: bool

text \<open>
  A message handed to \<^verbatim>\<open>sendSMS\<close> is a concatenation of literals and of numbers
  printed by \<^verbatim>\<open>String(float)\<close>; the decimal rendering is not modelled.
\<close>

datatype msg_part = Lit string | Num real

text \<open>One call of \<^verbatim>\<open>gsmSerial.print\<close>, \<^verbatim>\<open>println\<close> or \<^verbatim>\<open>write\<close>.\<close>

datatype gsm_write =
    GPrint string
  | GPrintln string
  | GPrintMsg "msg_part list"
  | GPrintlnInt int
  | GWrite nat

datatype jval = JString string | JFloat real | JMillis millis | JBool bool

type_synonym json = "(string \<times> jval) list"

text \<open>What the sketch does with its \<^verbatim>\<open>HTTPClient\<close> and with the modem's HTTP session.\<close>

datatype http_ev =
    HttpBegin string
  | HttpSetTimeout nat
  | HttpAddHeader string string
  | HttpPost json
  | HttpDelay nat
  | HttpEnd
  | GsmHttpPost json

record fw =
  deviceId :: string
  previousMillis :: millis
  emergencyActive :: bool
  emergencyHandled :: bool
  lastCallTime :: millis
  rates :: "nat list"
  rateSpot :: nat
  lastBeat :: millis
  beatAvg :: int
  validBeatCount :: int
  lastSpO2Calc :: millis
  lastValidSpO2 :: real
  lastValidHR :: real
  wasFingerDetected :: bool
  fallDetectedTime :: millis
  fallPending :: bool
  lastWiFiCheck :: millis
  wifiConnected :: bool
  gprsConnected :: bool
  spo2SampleIndex :: nat
  spo2CollectionActive :: bool
  lastSpo2Sample :: millis
  dataQueue :: "SensorData list"
  queueHead :: nat
  buttonPressStart :: millis
  buttonPressed :: bool
  gsm_tx :: "gsm_write list"
  http_log :: "http_ev list"

subsection \<open>Configuration constants\<close>

definition EMERGENCY_PHONE :: string where "EMERGENCY_PHONE = ''+917338033618''"
definition serverUrl :: string where "serverUrl = ''http://34.197.138.31:8000/api/v1/ingest''"
definition DATA_INTERVAL :: millis where "DATA_INTERVAL = 120000"
definition HTTP_TIMEOUT :: nat where "HTTP_TIMEOUT = 10000"
definition MAX_UPLOAD_RETRIES :: nat where "MAX_UPLOAD_RETRIES = 3"
definition WIFI_RECONNECT_INTERVAL :: millis where "WIFI_RECONNECT_INTERVAL = 30000"
definition HR_HIGH_THRESH :: real where "HR_HIGH_THRESH = 140"
definition HR_LOW_THRESH :: real where "HR_LOW_THRESH = 40"
definition SPO2_LOW_THRESH :: real where "SPO2_LOW_THRESH = 90"
definition ACCEL_FALL_THRESH :: real where "ACCEL_FALL_THRESH = 25"
definition GYRO_FALL_THRESH :: real where "GYRO_FALL_THRESH = 200"
definition CALL_INTERVAL :: millis where "CALL_INTERVAL = 30000"
definition RATE_SIZE :: nat where "RATE_SIZE = 8"
definition BUFFER_LENGTH :: nat where "BUFFER_LENGTH = 100"
definition SPO2_CALC_INTERVAL :: millis where "SPO2_CALC_INTERVAL = 5000"
definition FALL_CONFIRM_DELAY :: millis where "FALL_CONFIRM_DELAY = 300"
definition POST_FALL_STILLNESS_THRESH :: real where "POST_FALL_STILLNESS_THRESH = 12"
definition SPO2_SAMPLE_INTERVAL :: millis where "SPO2_SAMPLE_INTERVAL = 10"
definition DATA_QUEUE_SIZE :: nat where "DATA_QUEUE_SIZE = 5"

subsection \<open>The state after \<^verbatim>\<open>setup()\<close>\<close>

text \<open>
  The initialisers of the globals, with the two things \<^verbatim>\<open>setup()\<close> takes from the
  hardware: the device id printed from the MAC address and whether WiFi came up. The loop of
  \<^verbatim>\<open>setup()\<close> marks every queue slot as not pending.
\<close>

definition empty_slot :: SensorData where
  "empty_slot = \<lparr>hr = 0, spo2 = 0, accel_x = 0, accel_y = 0, accel_z = 0,
     gyro_x = 0, gyro_y = 0, gyro_z = 0, pending = False\<rparr>"

definition boot :: "string \<Rightarrow> bool \<Rightarrow> fw" where
  "boot mac wifi_ok =
     \<lparr>deviceId = mac, previousMillis = 0, emergencyActive = False, emergencyHandled = False,
      lastCallTime = 0, rates = replicate RATE_SIZE 0, rateSpot = 0, lastBeat = 0, beatAvg = 0,
      validBeatCount = 0, lastSpO2Calc = 0, lastValidSpO2 = 0, lastValidHR = 0,
      wasFingerDetected = False, fallDetectedTime = 0, fallPending = False, lastWiFiCheck = 0,
      wifiConnected = wifi_ok, gprsConnected = False, spo2SampleIndex = 0,
      spo2CollectionActive = False, lastSpo2Sample = 0,
      dataQueue = replicate DATA_QUEUE_SIZE empty_slot, queueHead = 0,
      buttonPressStart = 0, buttonPressed = False, gsm_tx = [], http_log = []\<rparr>"

section \<open>The offline queue\<close>

text \<open>
  \<^verbatim>\<open>queueData\<close> writes the nine members of the slot at \<^verbatim>\<open>queueHead\<close> and advances
  the index modulo the capacity. The array has \<^verbatim>\<open>DATA_QUEUE_SIZE\<close> slots; the write is
  inside it exactly when \<open>queueHead < DATA_QUEUE_SIZE\<close>, which \<open>queue_ok\<close> records.
\<close>

definition slot_of :: "real \<Rightarrow> real \<Rightarrow> sensors_vec \<Rightarrow> sensors_vec \<Rightarrow> SensorData" where
  "slot_of hr_v spo2_v a g =
     \<lparr>hr = hr_v, spo2 = spo2_v, accel_x = vec_x a, accel_y = vec_y a, accel_z = vec_z a,
      gyro_x = vec_x g, gyro_y = vec_y g, gyro_z = vec_z g, pending = True\<rparr>"

definition queueData :: "fw \<Rightarrow> real \<Rightarrow> real \<Rightarrow> sensors_vec \<Rightarrow> sensors_vec \<Rightarrow> fw" where
  "queueData st hr_v spo2_v a g =
     st\<lparr>dataQueue := (dataQueue st)[queueHead st := slot_of hr_v spo2_v a g],
        queueHead := (queueHead st + 1) mod DATA_QUEUE_SIZE\<rparr>"

definition queue_ok :: "fw \<Rightarrow> bool" where
  "queue_ok st = (length (dataQueue st) = DATA_QUEUE_SIZE \<and> queueHead st < DATA_QUEUE_SIZE)"

type_synonym reading = "real \<times> real \<times> sensors_vec \<times> sensors_vec"

fun enqueue_all :: "fw \<Rightarrow> reading list \<Rightarrow> fw" where
  "enqueue_all st [] = st"
| "enqueue_all st ((h, s, a, g) # rs) = enqueue_all (queueData st h s a g) rs"

text \<open>
  The slots in ring order, starting at the write index: the slot that the next
  \<^verbatim>\<open>queueData\<close> overwrites comes first, the slot written last comes last.
\<close>

definition ring :: "fw \<Rightarrow> SensorData list" where
  "ring st = rotate (queueHead st) (dataQueue st)"

definition pending_slots :: "fw \<Rightarrow> SensorData list" where
  "pending_slots st = filter pending (ring st)"

definition slot_of_reading :: "reading \<Rightarrow> SensorData" where
  "slot_of_reading r = (case r of (h, s, a, g) \<Rightarrow> slot_of h s a g)"

section \<open>Strings of the modem dialogue\<close>

text \<open>
  \<^verbatim>\<open>String::indexOf\<close> gives the position of the first occurrence of a string, or
  \<open>-1\<close>; on an empty receiver it gives \<open>-1\<close> for every argument.
  \<^verbatim>\<open>String::substring\<close> with one argument drops a prefix, and \<^verbatim>\<open>String::toInt\<close>
  is C's \<^verbatim>\<open>atol\<close>: white space, a sign, then decimal digits (values beyond 32 bits
  are not modelled).
\<close>

fun starts_with :: "string \<Rightarrow> string \<Rightarrow> bool" where
  "starts_with s [] = True"
| "starts_with [] (c # p) = False"
| "starts_with (d # s) (c # p) = (d = c \<and> starts_with s p)"

fun indexOf_from :: "string \<Rightarrow> string \<Rightarrow> int \<Rightarrow> int" where
  "indexOf_from [] p i = -1"
| "indexOf_from (d # s) p i = (if starts_with (d # s) p then i else indexOf_from s p (i + 1))"

definition indexOf :: "string \<Rightarrow> string \<Rightarrow> int" where
  "indexOf s p = indexOf_from s p 0"

definition substring :: "string \<Rightarrow> int \<Rightarrow> string" where
  "substring s left = drop (nat left) s"

definition is_space :: "char \<Rightarrow> bool" where
  "is_space c = ((of_char c :: nat) = 32 \<or> (9 \<le> (of_char c :: nat) \<and> (of_char c :: nat) \<le> 13))"

definition is_digit :: "char \<Rightarrow> bool" where
  "is_digit c = (48 \<le> (of_char c :: nat) \<and> (of_char c :: nat) \<le> 57)"

definition digits_value :: "string \<Rightarrow> int" where
  "digits_value s = foldl (\<lambda>acc c. acc * 10 + (int (of_char c) - 48)) 0 (takeWhile is_digit s)"

definition toInt :: "string \<Rightarrow> int" where
  "toInt s =
     (case dropWhile is_space s of
        [] \<Rightarrow> 0
      | c # r \<Rightarrow>
          if c = CHR ''-'' then - digits_value r
          else if c = CHR ''+'' then digits_value r
          else digits_value (c # r))"

section \<open>Uploading a reading\<close>

subsection \<open>The JSON documents\<close>

text \<open>\<^verbatim>\<open>doc[key] = value\<close> replaces the member with that key or appends a new one.\<close>

fun json_set :: "json \<Rightarrow> string \<Rightarrow> jval \<Rightarrow> json" where
  "json_set [] k v = [(k, v)]"
| "json_set ((k', v') # doc) k v = (if k' = k then (k, v) # doc else (k', v') # json_set doc k v)"

definition json_build :: "(string \<times> jval) list \<Rightarrow> json" where
  "json_build assignments = foldl (\<lambda>doc (k, v). json_set doc k v) [] assignments"

definition has_field :: "json \<Rightarrow> string \<Rightarrow> bool" where
  "has_field doc k = (k \<in> set (map fst doc))"

text \<open>The document of \<^verbatim>\<open>sendDataToCloud\<close>, in the order of its assignments.\<close>

definition cloud_doc :: "string \<Rightarrow> real \<Rightarrow> real \<Rightarrow> sensors_vec \<Rightarrow> sensors_vec \<Rightarrow> millis \<Rightarrow> json" where
  "cloud_doc dev hr_v spo2_v a g now =
     json_build
       [(''device_id'', JString dev), (''heart_rate'', JFloat hr_v), (''spo2'', JFloat spo2_v),
        (''accel_x'', JFloat (vec_x a)), (''accel_y'', JFloat (vec_y a)),
        (''accel_z'', JFloat (vec_z a)), (''gyro_x'', JFloat (vec_x g)),
        (''gyro_y'', JFloat (vec_y g)), (''gyro_z'', JFloat (vec_z g)),
        (''timestamp'', JMillis now), (''gps_lat'', JFloat 0), (''gps_long'', JFloat 0)]"

text \<open>The document of \<^verbatim>\<open>uploadQueuedData\<close> for one slot.\<close>

definition queued_doc :: "string \<Rightarrow> SensorData \<Rightarrow> json" where
  "queued_doc dev slot =
     json_build
       [(''device_id'', JString dev), (''heart_rate'', JFloat (hr slot)),
        (''spo2'', JFloat (spo2 slot)), (''accel_x'', JFloat (accel_x slot)),
        (''accel_y'', JFloat (accel_y slot)), (''accel_z'', JFloat (accel_z slot)),
        (''gyro_x'', JFloat (gyro_x slot)), (''gyro_y'', JFloat (gyro_y slot)),
        (''gyro_z'', JFloat (gyro_z slot)), (''queued'', JBool True),
        (''gps_lat'', JFloat 0), (''gps_long'', JFloat 0)]"

text \<open>The document of \<^verbatim>\<open>sendEmergencyDataToCloud\<close>.\<close>

definition emergency_doc :: "string \<Rightarrow> real \<Rightarrow> real \<Rightarrow> sensors_vec \<Rightarrow> sensors_vec \<Rightarrow> millis \<Rightarrow> json" where
  "emergency_doc dev hr_v spo2_v a g now =
     json_build
       [(''device_id'', JString dev), (''heart_rate'', JFloat hr_v), (''spo2'', JFloat spo2_v),
        (''accel_x'', JFloat (vec_x a)), (''accel_y'', JFloat (vec_y a)),
        (''accel_z'', JFloat (vec_z a)), (''gyro_x'', JFloat (vec_x g)),
        (''gyro_y'', JFloat (vec_y g)), (''gyro_z'', JFloat (vec_z g)),
        (''timestamp'', JMillis now), (''emergency'', JBool True),
        (''manual_trigger'', JBool True), (''gps_lat'', JFloat 0), (''gps_long'', JFloat 0)]"

subsection \<open>The WiFi path\<close>

text \<open>
  The environment of \<^verbatim>\<open>sendDataViaWiFi\<close>: what \<^verbatim>\<open>WiFi.status()\<close> says at its
  entry, and the code that the \<open>n\<close>-th call of \<^verbatim>\<open>http.POST\<close> returns. The loop
  \<^verbatim>\<open>for (attempt = 1; attempt <= MAX_UPLOAD_RETRIES; attempt++)\<close> is the recursion
  \<open>wifi_attempts\<close> on the attempt number.
\<close>

record wifi_env =
  wifi_status_connected :: bool
  post_response :: "nat \<Rightarrow> int"

function wifi_attempts :: "fw \<Rightarrow> json \<Rightarrow> (nat \<Rightarrow> int) \<Rightarrow> nat \<Rightarrow> fw \<times> bool" where
  "wifi_attempts st payload resp attempt =
     (if attempt \<le> MAX_UPLOAD_RETRIES then
        if resp attempt > 0 then
          (st\<lparr>http_log := http_log st @ [HttpPost payload, HttpEnd]\<rparr>, True)
        else if attempt < MAX_UPLOAD_RETRIES then
          wifi_attempts (st\<lparr>http_log := http_log st @ [HttpPost payload, HttpDelay 1000]\<rparr>)
            payload resp (attempt + 1)
        else
          wifi_attempts (st\<lparr>http_log := http_log st @ [HttpPost payload]\<rparr>)
            payload resp (attempt + 1)
      else (st\<lparr>http_log := http_log st @ [HttpEnd]\<rparr>, False))"
  by pat_completeness auto
termination
  by (relation "measure (\<lambda>(st, payload, resp, attempt). Suc MAX_UPLOAD_RETRIES - attempt)") auto

declare wifi_attempts.simps [simp del]

definition sendDataViaWiFi :: "fw \<Rightarrow> json \<Rightarrow> wifi_env \<Rightarrow> fw \<times> bool" where
  "sendDataViaWiFi st payload e =
     (if \<not> wifi_status_connected e then (st, False)
      else wifi_attempts
             (st\<lparr>http_log := http_log st @
                [HttpBegin serverUrl, HttpSetTimeout HTTP_TIMEOUT,
                 HttpAddHeader ''Content-Type'' ''application/json'']\<rparr>)
             payload (post_response e) 1)"

text \<open>
  The shape of what one call leaves in the trace: the set-up of the client, then the POSTs
  with the one-second pause between two of them, then the end of the session. The number
  of POSTs is the number of the first attempt with a positive code, or 3.
\<close>

fun separated :: "'a \<Rightarrow> 'a list \<Rightarrow> 'a list" where
  "separated d [] = []"
| "separated d [x] = [x]"
| "separated d (x # y # xs) = x # d # separated d (y # xs)"

definition attempts_made :: "(nat \<Rightarrow> int) \<Rightarrow> nat" where
  "attempts_made resp = (if resp 1 > 0 then 1 else if resp 2 > 0 then 2 else 3)"

definition wifi_trace :: "json \<Rightarrow> nat \<Rightarrow> http_ev list" where
  "wifi_trace payload n =
     [HttpBegin serverUrl, HttpSetTimeout HTTP_TIMEOUT,
      HttpAddHeader ''Content-Type'' ''application/json'']
     @ separated (HttpDelay 1000) (replicate n (HttpPost payload)) @ [HttpEnd]"

subsection \<open>The modem path\<close>

text \<open>
  \<^verbatim>\<open>sendDataViaGSM\<close> is a dialogue of AT commands with bounded waits. The model keeps
  its exits and what it does to the globals; the modem's side of the dialogue is the
  environment: whether \<^verbatim>\<open>initGPRS()\<close> succeeds (asked only when the bearer is down),
  whether the HTTP session opens, whether the URL is accepted, whether the
  \<^verbatim>\<open>DOWNLOAD\<close> prompt comes, and whether \<^verbatim>\<open>+HTTPACTION:\<close> reports 200 or 201
  within 30 seconds. The payload is written to the modem only after the prompt.
\<close>

record gsm_env =
  gprs_init_ok :: bool
  http_init_ok :: bool
  url_ok :: bool
  download_prompt :: bool
  action_ok :: bool

definition sendDataViaGSM :: "fw \<Rightarrow> json \<Rightarrow> gsm_env \<Rightarrow> fw \<times> bool" where
  "sendDataViaGSM st payload e =
     (if \<not> gprsConnected st \<and> \<not> gprs_init_ok e then (st, False)
      else
        let st1 = st\<lparr>gprsConnected := True\<rparr> in
        if \<not> http_init_ok e then (st1, False)
        else if \<not> url_ok e then (st1, False)
        else if \<not> download_prompt e then (st1, False)
        else (st1\<lparr>http_log := http_log st1 @ [GsmHttpPost payload]\<rparr>, action_ok e))"

subsection \<open>The three upload functions\<close>

record upload_env =
  cloud_now :: millis
  wifi_up :: bool
  wifi :: wifi_env
  gsm :: gsm_env

definition sendDataToCloud ::
  "fw \<Rightarrow> real \<Rightarrow> real \<Rightarrow> sensors_vec \<Rightarrow> sensors_vec \<Rightarrow> upload_env \<Rightarrow> fw" where
  "sendDataToCloud st hr_v spo2_v a g e =
     (let jsonPayload = cloud_doc (deviceId st) hr_v spo2_v a g (cloud_now e);
          w = (if wifi_up e then sendDataViaWiFi st jsonPayload (wifi e) else (st, False))
      in if snd w then fst w
         else
           let m = sendDataViaGSM (fst w) jsonPayload (gsm e)
           in if snd m then fst m else queueData (fst m) hr_v spo2_v a g)"

definition sendEmergencyDataToCloud ::
  "fw \<Rightarrow> real \<Rightarrow> real \<Rightarrow> sensors_vec \<Rightarrow> sensors_vec \<Rightarrow> upload_env \<Rightarrow> fw" where
  "sendEmergencyDataToCloud st hr_v spo2_v a g e =
     (let jsonPayload = emergency_doc (deviceId st) hr_v spo2_v a g (cloud_now e);
          w = (if wifi_up e then sendDataViaWiFi st jsonPayload (wifi e) else (st, False))
      in if snd w then fst w else fst (sendDataViaGSM (fst w) jsonPayload (gsm e)))"

text \<open>
  One pass of the loop of \<^verbatim>\<open>uploadQueuedData\<close> over slot \<open>i\<close>; the function runs it
  for \<open>i = 0, \<dots>, DATA_QUEUE_SIZE - 1\<close>, each slot with its own environment.
\<close>

definition upload_slot :: "fw \<Rightarrow> nat \<Rightarrow> upload_env \<Rightarrow> fw" where
  "upload_slot st i e =
     (if pending (dataQueue st ! i) then
        let jsonPayload = queued_doc (deviceId st) (dataQueue st ! i);
            w = (if wifi_up e then sendDataViaWiFi st jsonPayload (wifi e) else (st, False));
            m = (if \<not> snd w then sendDataViaGSM (fst w) jsonPayload (gsm e) else w)
        in if snd m
           then (fst m)\<lparr>dataQueue := (dataQueue (fst m))[i := (dataQueue (fst m) ! i)\<lparr>pending := False\<rparr>]\<rparr>
           else fst m
      else st)"

definition uploadQueuedData :: "fw \<Rightarrow> (nat \<Rightarrow> upload_env) \<Rightarrow> fw" where
  "uploadQueuedData st envs = fold (\<lambda>i s. upload_slot s i (envs i)) [0..<DATA_QUEUE_SIZE] st"

subsection \<open>What has been posted\<close>

text \<open>
  The documents in a trace, whether posted over WiFi or written to the modem, and the three
  lists of keys a document of the sketch can have. A document is well formed when its keys,
  in order, are one of the three lists and the flags it carries are \<^verbatim>\<open>true\<close>.
\<close>

fun payloads :: "http_ev list \<Rightarrow> json list" where
  "payloads [] = []"
| "payloads (HttpPost d # evs) = d # payloads evs"
| "payloads (GsmHttpPost d # evs) = d # payloads evs"
| "payloads (ev # evs) = payloads evs"

definition periodic_keys :: "string list" where
  "periodic_keys = [''device_id'', ''heart_rate'', ''spo2'', ''accel_x'', ''accel_y'', ''accel_z'',
     ''gyro_x'', ''gyro_y'', ''gyro_z'', ''timestamp'', ''gps_lat'', ''gps_long'']"

definition emergency_keys :: "string list" where
  "emergency_keys = [''device_id'', ''heart_rate'', ''spo2'', ''accel_x'', ''accel_y'', ''accel_z'',
     ''gyro_x'', ''gyro_y'', ''gyro_z'', ''timestamp'', ''emergency'', ''manual_trigger'',
     ''gps_lat'', ''gps_long'']"

definition queued_keys :: "string list" where
  "queued_keys = [''device_id'', ''heart_rate'', ''spo2'', ''accel_x'', ''accel_y'', ''accel_z'',
     ''gyro_x'', ''gyro_y'', ''gyro_z'', ''queued'', ''gps_lat'', ''gps_long'']"

definition doc_ok :: "json \<Rightarrow> bool" where
  "doc_ok d =
     (map fst d = periodic_keys
      \<or> (map fst d = emergency_keys \<and> map_of d ''emergency'' = Some (JBool True)
           \<and> map_of d ''manual_trigger'' = Some (JBool True))
      \<or> (map fst d = queued_keys \<and> map_of d ''queued'' = Some (JBool True)))"

definition posts_ok :: "fw \<Rightarrow> bool" where
  "posts_ok st = list_all doc_ok (payloads (http_log st))"

text \<open>
  The documents posted so far, and how many times one call of an upload function posts its
  document. \<^verbatim>\<open>sendDataViaWiFi\<close> posts when the station is connected, once per attempt;
  it succeeds when one of the three response codes is positive. \<^verbatim>\<open>sendDataViaGSM\<close>
  runs only when WiFi has not succeeded, and writes the document once if the GPRS bearer is
  up or comes up and \<^verbatim>\<open>HTTPINIT\<close>, the URL and the \<^verbatim>\<open>DOWNLOAD\<close> prompt succeed.
\<close>

definition posted :: "fw \<Rightarrow> json list" where
  "posted st = payloads (http_log st)"

definition wifi_posts :: "upload_env \<Rightarrow> nat" where
  "wifi_posts e =
     (if wifi_up e \<and> wifi_status_connected (wifi e) then attempts_made (post_response (wifi e))
      else 0)"

definition wifi_succeeds :: "upload_env \<Rightarrow> bool" where
  "wifi_succeeds e =
     (wifi_up e \<and> wifi_status_connected (wifi e)
      \<and> (0 < post_response (wifi e) 1 \<or> 0 < post_response (wifi e) 2
          \<or> 0 < post_response (wifi e) 3))"

definition gsm_posts :: "fw \<Rightarrow> upload_env \<Rightarrow> nat" where
  "gsm_posts st e =
     (if \<not> wifi_succeeds e \<and> (gprsConnected st \<or> gprs_init_ok (gsm e)) \<and> http_init_ok (gsm e)
         \<and> url_ok (gsm e) \<and> download_prompt (gsm e)
      then 1 else 0)"

definition upload_posts :: "fw \<Rightarrow> upload_env \<Rightarrow> nat" where
  "upload_posts st e = wifi_posts e + gsm_posts st e"

section \<open>The emergency escalation\<close>

subsection \<open>Sending a text message\<close>

text \<open>
  \<^verbatim>\<open>sendSMS\<close> writes the \<^verbatim>\<open>AT+CMGS\<close> command, waits up to 3 seconds for the
  prompt \<^verbatim>\<open>>\<close>, and without it writes ESC (27) and gives up; with it, it writes the
  message and CTRL+Z (26) and waits up to 10 seconds for \<^verbatim>\<open>+CMGS:\<close> or
  \<^verbatim>\<open>ERROR\<close>. The modem's reaction is the environment; the two waiting loops are
  represented by the way they end.
\<close>

datatype sms_reply = NoPrompt | SmsConfirmed | SmsError | SmsTimeout

definition CMGS :: gsm_write where
  "CMGS = GPrint (''AT+CMGS='' @ [CHR 0x22])"

definition sendSMS :: "fw \<Rightarrow> string \<Rightarrow> msg_part list \<Rightarrow> sms_reply \<Rightarrow> fw \<times> bool" where
  "sendSMS st num msg reply =
     (let st1 = st\<lparr>gsm_tx := gsm_tx st @ [CMGS, GPrint num, GPrintln [CHR 0x22]]\<rparr>
      in if reply = NoPrompt then (st1\<lparr>gsm_tx := gsm_tx st1 @ [GWrite 27]\<rparr>, False)
         else (st1\<lparr>gsm_tx := gsm_tx st1 @ [GPrintMsg msg, GWrite 26]\<rparr>, reply = SmsConfirmed))"

text \<open>The number of \<^verbatim>\<open>sendSMS\<close> calls that a trace of modem writes holds.\<close>

definition sms_sends :: "gsm_write list \<Rightarrow> nat" where
  "sms_sends tx = length (filter (\<lambda>w. w = CMGS) tx)"

subsection \<open>\<^verbatim>\<open>triggerEmergency\<close>\<close>

text \<open>
  The arguments after the message are the modem's reaction to the notification and the
  value of \<^verbatim>\<open>millis()\<close> read after \<^verbatim>\<open>sendSMS\<close> has returned.
\<close>

definition triggerEmergency :: "fw \<Rightarrow> msg_part list \<Rightarrow> sms_reply \<Rightarrow> millis \<Rightarrow> fw" where
  "triggerEmergency st msg reply now =
     (if emergencyActive st \<or> emergencyHandled st then st
      else
        let st1 = st\<lparr>emergencyActive := True, emergencyHandled := False\<rparr>;
            st2 = fst (sendSMS st1 EMERGENCY_PHONE msg reply)
        in st2\<lparr>lastCallTime := now - CALL_INTERVAL\<rparr>)"

fun trigger_all :: "fw \<Rightarrow> (msg_part list \<times> sms_reply \<times> millis) list \<Rightarrow> fw" where
  "trigger_all st [] = st"
| "trigger_all st ((msg, reply, now) # ts) = trigger_all (triggerEmergency st msg reply now) ts"

subsection \<open>\<^verbatim>\<open>checkForIncomingSMS\<close>\<close>

text \<open>
  One call reads the modem at most twice: \<^verbatim>\<open>readString()\<close> when
  \<^verbatim>\<open>gsmSerial.available()\<close>, and, after a \<^verbatim>\<open>+CMTI:\<close> notification, the answer to
  \<^verbatim>\<open>AT+CMGR\<close>. Both texts, and the modem's reaction to the confirmation message, are
  the environment. The last branch of the source, for an \<^verbatim>\<open>OK\<close> outside a notification,
  has an empty body.
\<close>

record sms_poll =
  rx_available :: bool
  rx_data :: string
  rx_content :: string
  rx_reply :: sms_reply

definition checkForIncomingSMS :: "fw \<Rightarrow> sms_poll \<Rightarrow> fw" where
  "checkForIncomingSMS st p =
     (if rx_available p then
        if indexOf (rx_data p) ''+CMTI:'' \<noteq> -1 then
          let indexStrStart = indexOf (rx_data p) '','';
              index = toInt (substring (rx_data p) (indexStrStart + 1));
              st1 = st\<lparr>gsm_tx := gsm_tx st @ [GPrint ''AT+CMGR='', GPrintlnInt index]\<rparr>;
              smsContent = rx_content p;
              st2 =
                (if indexOf smsContent ''OK'' \<noteq> -1 \<or> indexOf smsContent ''ok'' \<noteq> -1 then
                   fst (sendSMS (st1\<lparr>emergencyActive := False, emergencyHandled := True\<rparr>)
                          EMERGENCY_PHONE [Lit ''Alert acknowledged. Calls stopped.''] (rx_reply p))
                 else if indexOf smsContent ''Resume'' \<noteq> -1 \<or> indexOf smsContent ''resume'' \<noteq> -1 then
                   fst (sendSMS (st1\<lparr>emergencyActive := True, emergencyHandled := False\<rparr>)
                          EMERGENCY_PHONE [Lit ''Alert sequence resumed. Calls restarting.'']
                          (rx_reply p))
                 else st1)
          in st2\<lparr>gsm_tx := gsm_tx st2 @ [GPrint ''AT+CMGD='', GPrintlnInt index]\<rparr>
        else st
      else st)"

text \<open>The poll reads an acknowledgment: a notification whose message holds the keyword.\<close>

definition is_ack :: "sms_poll \<Rightarrow> bool" where
  "is_ack p =
     (rx_available p \<and> indexOf (rx_data p) ''+CMTI:'' \<noteq> -1 \<and>
      (indexOf (rx_content p) ''OK'' \<noteq> -1 \<or> indexOf (rx_content p) ''ok'' \<noteq> -1))"

subsection \<open>\<^verbatim>\<open>handleEmergencyCalls\<close>\<close>

text \<open>
  The loop \<^verbatim>\<open>while (millis() - callStart < 25000)\<close> pauses half a second in every
  pass, so it makes finitely many passes. The environment gives them in order: for each
  pass the clock reading of the loop condition, what \<^verbatim>\<open>checkForIncomingSMS\<close> reads,
  and what the modem answers to \<^verbatim>\<open>AT+CLCC\<close>. When the passes are used up the next
  clock reading is past the 25 seconds. The loop ends in one of three ways.
\<close>

record call_poll =
  poll_time :: millis
  poll_sms :: sms_poll
  clcc_available :: bool
  clcc_resp :: string

datatype monitor_exit = Cancelled | Answered | TimedOut

fun monitor_call :: "fw \<Rightarrow> millis \<Rightarrow> call_poll list \<Rightarrow> fw \<times> monitor_exit" where
  "monitor_call st callStart [] = (st, TimedOut)"
| "monitor_call st callStart (p # ps) =
     (if poll_time p - callStart < 25000 then
        let st1 = checkForIncomingSMS st (poll_sms p) in
        if emergencyHandled st1 then
          (st1\<lparr>gsm_tx := gsm_tx st1 @ [GPrintln ''ATH'']\<rparr>, Cancelled)
        else
          let st2 = st1\<lparr>gsm_tx := gsm_tx st1 @ [GPrintln ''AT+CLCC'']\<rparr> in
          if clcc_available p \<and> indexOf (clcc_resp p) ''+CLCC: 1,0,0,0,0'' \<noteq> -1 then
            (st2\<lparr>gsm_tx := gsm_tx st2 @ [GPrintln ''ATH''],
                 emergencyActive := False, emergencyHandled := True\<rparr>, Answered)
          else monitor_call st2 callStart ps
      else (st, TimedOut))"

definition handleEmergencyCalls :: "fw \<Rightarrow> millis \<Rightarrow> call_poll list \<Rightarrow> fw" where
  "handleEmergencyCalls st now polls =
     (if \<not> emergencyActive st \<or> emergencyHandled st then st
      else if now - lastCallTime st \<ge> CALL_INTERVAL then
        let st1 = st\<lparr>lastCallTime := now,
                     gsm_tx := gsm_tx st @ [GPrint ''ATD'', GPrint EMERGENCY_PHONE, GPrintln '';'']\<rparr>;
            r = monitor_call st1 now polls;
            st2 = fst r
        in if snd r = TimedOut \<and> \<not> emergencyHandled st2 \<and> emergencyActive st2
           then st2\<lparr>gsm_tx := gsm_tx st2 @ [GPrintln ''ATH'']\<rparr>
           else st2
      else st)"

text \<open>
  A pass of the loop is inside the 25 seconds; it is uneventful when the poll reads no
  acknowledgment and the answer to \<^verbatim>\<open>AT+CLCC\<close> does not report an active call.
\<close>

definition in_time :: "millis \<Rightarrow> call_poll \<Rightarrow> bool" where
  "in_time callStart p = (poll_time p - callStart < 25000)"

definition uneventful :: "call_poll \<Rightarrow> bool" where
  "uneventful p =
     (\<not> is_ack (poll_sms p)
      \<and> \<not> (clcc_available p \<and> indexOf (clcc_resp p) ''+CLCC: 1,0,0,0,0'' \<noteq> -1))"

subsection \<open>The manual trigger\<close>

text \<open>
  \<^verbatim>\<open>triggerManualEmergency\<close> clears both flags, uploads the emergency document and
  calls \<^verbatim>\<open>triggerEmergency\<close>. Its environment is that of the upload, the modem's
  reaction to the notification, and the clock that \<^verbatim>\<open>triggerEmergency\<close> reads. The
  two detectors of the loop, which notify and upload as well, take an environment of the
  same shape.
\<close>

record alert_env =
  al_upload :: upload_env
  al_reply :: sms_reply
  al_now :: millis

definition triggerManualEmergency ::
  "fw \<Rightarrow> real \<Rightarrow> real \<Rightarrow> sensors_vec \<Rightarrow> sensors_vec \<Rightarrow> alert_env \<Rightarrow> fw" where
  "triggerManualEmergency st currentHR currentSpO2 a g e =
     (let st1 = st\<lparr>emergencyActive := False, emergencyHandled := False\<rparr>;
          testHR = (if currentHR > 0 then currentHR else 75);
          testSpO2 = (if currentSpO2 > 0 then currentSpO2 else 98);
          st2 = sendEmergencyDataToCloud st1 testHR testSpO2 a g (al_upload e)
      in triggerEmergency st2
           [Lit ''MANUAL EMERGENCY TEST! HR: '', Num testHR, Lit '', SpO2: '', Num testSpO2]
           (al_reply e) (al_now e))"

text \<open>
  \<^verbatim>\<open>checkManualEmergencyTrigger\<close> reads one command character from \<^verbatim>\<open>Serial\<close>
  when there is one, then the button. The command \<^verbatim>\<open>S\<close> only prints.
\<close>

record manual_input =
  serial_available :: bool
  cmd :: char
  serial_env :: alert_env
  button_low :: bool
  button_now :: millis
  button_env :: alert_env

definition checkManualEmergencyTrigger ::
  "fw \<Rightarrow> real \<Rightarrow> real \<Rightarrow> sensors_vec \<Rightarrow> sensors_vec \<Rightarrow> manual_input \<Rightarrow> fw" where
  "checkManualEmergencyTrigger st currentHR currentSpO2 a g i =
     (let st1 =
            (if serial_available i then
               if cmd i = CHR ''E'' \<or> cmd i = CHR ''e'' then
                 triggerManualEmergency st currentHR currentSpO2 a g (serial_env i)
               else if cmd i = CHR ''R'' \<or> cmd i = CHR ''r'' then
                 st\<lparr>emergencyActive := False, emergencyHandled := False\<rparr>
               else st
             else st)
      in if button_low i then
           let st2 = (if \<not> buttonPressed st1
                      then st1\<lparr>buttonPressed := True, buttonPressStart := button_now i\<rparr>
                      else st1)
           in if button_now i - buttonPressStart st2 \<ge> 2000 then
                (triggerManualEmergency st2 currentHR currentSpO2 a g (button_env i))
                  \<lparr>buttonPressed := False\<rparr>
              else st2
         else st1\<lparr>buttonPressed := False\<rparr>)"

section \<open>The vital-sign acquisition\<close>

text \<open>
  What one pass of \<^verbatim>\<open>loop()\<close> takes from the pulse sensor: the infrared value, whether
  \<^verbatim>\<open>checkForBeat\<close> reports a beat (asked only with a finger on the sensor), the clock,
  whether a sample is available for the SpO2 window, and the four results of
  \<^verbatim>\<open>maxim_heart_rate_and_oxygen_saturation\<close>, which the sketch reads only when the
  window has just filled. The two sample buffers feed that routine only and are left out,
  as are the globals \<^verbatim>\<open>beatsPerMinute\<close>, \<^verbatim>\<open>spo2Value\<close>, \<^verbatim>\<open>validSPO2\<close>,
  \<^verbatim>\<open>heartRateValue\<close> and \<^verbatim>\<open>validHeartRate\<close>, which are read where they are written.
  One pass uses one clock reading.
\<close>

record vitals_input =
  irValue :: int
  beat :: bool
  v_now :: millis
  sample_available :: bool
  spo2Value :: int
  validSPO2 :: int
  heartRateValue :: int
  validHeartRate :: int

definition fingerDetected :: "vitals_input \<Rightarrow> bool" where
  "fingerDetected i = (irValue i > 50000)"

text \<open>The body of \<^verbatim>\<open>if (!fingerDetected && wasFingerDetected)\<close>.\<close>

definition reset_readings :: "fw \<Rightarrow> fw" where
  "reset_readings st =
     st\<lparr>rates := replicate RATE_SIZE 0, rateSpot := 0, validBeatCount := 0, beatAvg := 0,
        lastValidHR := 0, lastValidSpO2 := 0, lastBeat := 0\<rparr>"

text \<open>
  The body of \<^verbatim>\<open>if (fingerDetected && checkForBeat(irValue) == true)\<close>.
  \<^verbatim>\<open>delta\<close> is a signed \<^verbatim>\<open>long\<close>; the cast \<^verbatim>\<open>(byte)\<close> truncates the rate and
  keeps its low eight bits; the average is an \<^verbatim>\<open>int\<close> division of non-negative numbers.
\<close>

definition beat_detected :: "fw \<Rightarrow> millis \<Rightarrow> fw" where
  "beat_detected st now =
     (let delta = sint (now - lastBeat st);
          st1 = st\<lparr>lastBeat := now\<rparr>;
          beatsPerMinute = 60 / (real_of_int delta / 1000)
      in if beatsPerMinute \<ge> 40 \<and> beatsPerMinute \<le> 180 then
           let rs = (rates st1)[rateSpot st1 := nat \<lfloor>beatsPerMinute\<rfloor> mod 256];
               spot = (rateSpot st1 + 1) mod RATE_SIZE;
               cnt = (if validBeatCount st1 < int RATE_SIZE then validBeatCount st1 + 1
                      else validBeatCount st1);
               avg = sum_list (map int (take (nat cnt) rs)) div cnt
           in st1\<lparr>rates := rs, rateSpot := spot, validBeatCount := cnt, beatAvg := avg,
                  lastValidHR := real_of_int avg\<rparr>
         else st1)"

text \<open>What the sketch does with the results of the estimation routine.\<close>

definition spo2_result :: "fw \<Rightarrow> vitals_input \<Rightarrow> fw" where
  "spo2_result st i =
     (let st1 = (if validSPO2 i \<noteq> 0 \<and> spo2Value i \<ge> 70 \<and> spo2Value i \<le> 100
                 then st\<lparr>lastValidSpO2 := real_of_int (spo2Value i)\<rparr> else st)
      in if validHeartRate i \<noteq> 0 \<and> heartRateValue i \<ge> 40 \<and> heartRateValue i \<le> 180
            \<and> validBeatCount st1 < 4
         then st1\<lparr>lastValidHR := real_of_int (heartRateValue i)\<rparr> else st1)"

definition spo2_collection :: "fw \<Rightarrow> vitals_input \<Rightarrow> fw" where
  "spo2_collection st i =
     (if fingerDetected i then
        let now = v_now i;
            st1 = (if \<not> spo2CollectionActive st \<and> now - lastSpO2Calc st \<ge> SPO2_CALC_INTERVAL
                   then st\<lparr>spo2CollectionActive := True, spo2SampleIndex := 0,
                           lastSpo2Sample := now\<rparr>
                   else st)
        in if spo2CollectionActive st1 \<and> now - lastSpo2Sample st1 \<ge> SPO2_SAMPLE_INTERVAL then
             let st2 = st1\<lparr>lastSpo2Sample := now\<rparr> in
             if sample_available i then
               let st3 = st2\<lparr>spo2SampleIndex := (spo2SampleIndex st2 + 1) mod 256\<rparr> in
               if spo2SampleIndex st3 \<ge> BUFFER_LENGTH
               then spo2_result (st3\<lparr>spo2CollectionActive := False, lastSpO2Calc := now\<rparr>) i
               else st3
             else st2
           else st1
      else st\<lparr>spo2CollectionActive := False, spo2SampleIndex := 0\<rparr>)"

text \<open>
  The pass in which the window fills: a finger is on the sensor, the collection is running,
  the sample interval has passed, a sample is available, and it is the last of the window.
\<close>

definition window_full :: "fw \<Rightarrow> vitals_input \<Rightarrow> bool" where
  "window_full st i =
     (fingerDetected i \<and> sample_available i \<and> spo2CollectionActive st
      \<and> v_now i - lastSpo2Sample st \<ge> SPO2_SAMPLE_INTERVAL
      \<and> (spo2SampleIndex st + 1) mod 256 \<ge> BUFFER_LENGTH)"

text \<open>Section A of \<^verbatim>\<open>loop()\<close>, and the two values it reports to the rest of the pass.\<close>

definition read_vitals :: "fw \<Rightarrow> vitals_input \<Rightarrow> fw" where
  "read_vitals st i =
     (let st1 = (if \<not> fingerDetected i \<and> wasFingerDetected st then reset_readings st else st);
          st2 = st1\<lparr>wasFingerDetected := fingerDetected i\<rparr>;
          st3 = (if fingerDetected i \<and> beat i then beat_detected st2 (v_now i) else st2)
      in spo2_collection st3 i)"

definition currentSpO2 :: "fw \<Rightarrow> vitals_input \<Rightarrow> real" where
  "currentSpO2 st i = (if fingerDetected i then lastValidSpO2 st else 0)"

definition currentHR :: "fw \<Rightarrow> vitals_input \<Rightarrow> real" where
  "currentHR st i = (if fingerDetected i then lastValidHR st else 0)"

subsection \<open>The beat history\<close>

text \<open>
  The valid entries of \<^verbatim>\<open>rates\<close> are its first \<^verbatim>\<open>validBeatCount\<close> entries: the
  average is taken over them. \<open>beat_inv\<close> collects what holds of the history between
  two passes: the indices are inside the array, the write index equals the count until the
  array is full, the valid entries are between 40 and 180 and the others are 0, and with at
  least one valid entry the average is their integer mean and it and the cached heart rate
  are between 40 and 180.
\<close>

definition in_range :: "nat \<Rightarrow> bool" where
  "in_range r = (40 \<le> r \<and> r \<le> 180)"

definition valid_entries :: "fw \<Rightarrow> nat list" where
  "valid_entries st = take (nat (validBeatCount st)) (rates st)"

definition beat_inv :: "fw \<Rightarrow> bool" where
  "beat_inv st =
     (length (rates st) = RATE_SIZE \<and> rateSpot st < RATE_SIZE
      \<and> 0 \<le> validBeatCount st \<and> validBeatCount st \<le> int RATE_SIZE
      \<and> (validBeatCount st = int RATE_SIZE \<or> rateSpot st = nat (validBeatCount st))
      \<and> list_all in_range (valid_entries st)
      \<and> list_all (\<lambda>r. r = 0) (drop (nat (validBeatCount st)) (rates st))
      \<and> (validBeatCount st = 0
          \<or> (40 \<le> beatAvg st \<and> beatAvg st \<le> 180
              \<and> beatAvg st = sum_list (map int (valid_entries st)) div validBeatCount st
              \<and> 40 \<le> lastValidHR st \<and> lastValidHR st \<le> 180)))"

text \<open>The history and the cached values after a loss of contact.\<close>

definition cleared :: "fw \<Rightarrow> bool" where
  "cleared st =
     (rates st = replicate RATE_SIZE 0 \<and> validBeatCount st = 0 \<and> beatAvg st = 0
      \<and> lastValidHR st = 0 \<and> lastValidSpO2 st = 0)"

section \<open>The anomaly detectors\<close>

definition magnitude :: "sensors_vec \<Rightarrow> real" where
  "magnitude v = sqrt (vec_x v * vec_x v + vec_y v * vec_y v + vec_z v * vec_z v)"

definition FALL_MSG :: "msg_part list" where
  "FALL_MSG = [Lit ''FALL DETECTED! User may be unresponsive.'']"

text \<open>
  The three statements of the fall detector, in the order of the source: the impact test,
  the confirmation after \<^verbatim>\<open>FALL_CONFIRM_DELAY\<close>, and the timeout. The pass uses one
  clock reading \<open>now\<close>.
\<close>

definition fall_impact :: "fw \<Rightarrow> millis \<Rightarrow> real \<Rightarrow> real \<Rightarrow> fw" where
  "fall_impact st now accelMag gyroMag =
     (if accelMag > ACCEL_FALL_THRESH \<and> gyroMag > GYRO_FALL_THRESH then
        if \<not> fallPending st \<and> \<not> emergencyActive st \<and> \<not> emergencyHandled st
        then st\<lparr>fallPending := True, fallDetectedTime := now\<rparr>
        else st
      else st)"

definition fall_confirm ::
  "fw \<Rightarrow> millis \<Rightarrow> real \<Rightarrow> real \<Rightarrow> real \<Rightarrow> sensors_vec \<Rightarrow> sensors_vec \<Rightarrow> alert_env \<Rightarrow> fw" where
  "fall_confirm st now accelMag hr_v spo2_v a g e =
     (if fallPending st \<and> now - fallDetectedTime st \<ge> FALL_CONFIRM_DELAY then
        if accelMag < POST_FALL_STILLNESS_THRESH then
          let st1 = st\<lparr>fallPending := False\<rparr> in
          if \<not> emergencyActive st1 \<and> \<not> emergencyHandled st1
          then sendDataToCloud (triggerEmergency st1 FALL_MSG (al_reply e) (al_now e))
                 hr_v spo2_v a g (al_upload e)
          else st1
        else st\<lparr>fallPending := False\<rparr>
      else st)"

definition fall_timeout :: "fw \<Rightarrow> millis \<Rightarrow> fw" where
  "fall_timeout st now =
     (if fallPending st \<and> now - fallDetectedTime st > 1000 then st\<lparr>fallPending := False\<rparr>
      else st)"

definition fall_detection ::
  "fw \<Rightarrow> millis \<Rightarrow> real \<Rightarrow> real \<Rightarrow> real \<Rightarrow> real \<Rightarrow> sensors_vec \<Rightarrow> sensors_vec \<Rightarrow> alert_env \<Rightarrow> fw" where
  "fall_detection st now accelMag gyroMag hr_v spo2_v a g e =
     fall_timeout (fall_confirm (fall_impact st now accelMag gyroMag) now accelMag hr_v spo2_v a g e) now"

definition vitals_check ::
  "fw \<Rightarrow> bool \<Rightarrow> real \<Rightarrow> real \<Rightarrow> sensors_vec \<Rightarrow> sensors_vec \<Rightarrow> alert_env \<Rightarrow> fw" where
  "vitals_check st finger hr_v spo2_v a g e =
     (if finger \<and> validBeatCount st \<ge> 4 then
        let hrEmergency = (hr_v > HR_HIGH_THRESH \<or> (hr_v > 0 \<and> hr_v < HR_LOW_THRESH));
            spo2Emergency = (spo2_v > 0 \<and> spo2_v < SPO2_LOW_THRESH)
        in if hrEmergency \<or> spo2Emergency then
             if \<not> emergencyActive st \<and> \<not> emergencyHandled st
             then sendDataToCloud
                    (triggerEmergency st
                       [Lit ''CRITICAL VITALS ALERT! HR: '', Num hr_v, Lit '', SpO2: '', Num spo2_v]
                       (al_reply e) (al_now e))
                    hr_v spo2_v a g (al_upload e)
             else st
           else st
      else st)"

section \<open>The control loop\<close>

datatype wl_status = WL_CONNECTED | WL_IDLE_STATUS | WL_DISCONNECTED | WL_OTHER

record wifi_input =
  wifiStatus :: wl_status
  w_now :: millis
  queue_envs :: "nat \<Rightarrow> upload_env"

definition wifi_check :: "fw \<Rightarrow> wifi_input \<Rightarrow> fw" where
  "wifi_check st i =
     (if wifiStatus i = WL_CONNECTED then
        if \<not> wifiConnected st then uploadQueuedData (st\<lparr>wifiConnected := True\<rparr>) (queue_envs i)
        else st
      else
        let st1 = (if wifiConnected st then st\<lparr>wifiConnected := False\<rparr> else st) in
        if wifiStatus i \<noteq> WL_IDLE_STATUS \<and> wifiStatus i \<noteq> WL_DISCONNECTED
           \<and> w_now i - lastWiFiCheck st1 \<ge> WIFI_RECONNECT_INTERVAL
        then st1\<lparr>lastWiFiCheck := w_now i\<rparr>
        else if wifiStatus i = WL_DISCONNECTED
                \<and> w_now i - lastWiFiCheck st1 \<ge> WIFI_RECONNECT_INTERVAL
        then st1\<lparr>lastWiFiCheck := w_now i\<rparr>
        else st1)"

text \<open>
  Everything one pass of \<^verbatim>\<open>loop()\<close> takes from outside, section by section. The
  watchdog reset at the top of the pass has no effect on the globals.
\<close>

record loop_input =
  in_wifi :: wifi_input
  in_vitals :: vitals_input
  in_accel :: sensors_vec
  in_gyro :: sensors_vec
  in_now :: millis
  in_fall :: alert_env
  in_alert :: alert_env
  in_call_now :: millis
  in_call_polls :: "call_poll list"
  in_sms :: sms_poll
  in_manual :: manual_input
  in_periodic_now :: millis
  in_periodic :: upload_env

definition detect :: "fw \<Rightarrow> loop_input \<Rightarrow> fw" where
  "detect st i =
     (let hr_v = currentHR st (in_vitals i);
          spo2_v = currentSpO2 st (in_vitals i);
          a = in_accel i;
          g = in_gyro i;
          st1 = fall_detection st (in_now i) (magnitude a) (magnitude g) hr_v spo2_v a g (in_fall i)
      in vitals_check st1 (fingerDetected (in_vitals i)) hr_v spo2_v a g (in_alert i))"

definition escalate :: "fw \<Rightarrow> loop_input \<Rightarrow> real \<Rightarrow> real \<Rightarrow> fw" where
  "escalate st i hr_v spo2_v =
     (let st1 = (if emergencyActive st \<and> \<not> emergencyHandled st
                 then handleEmergencyCalls st (in_call_now i) (in_call_polls i) else st);
          st2 = checkForIncomingSMS st1 (in_sms i)
      in checkManualEmergencyTrigger st2 hr_v spo2_v (in_accel i) (in_gyro i) (in_manual i))"

definition periodic_upload :: "fw \<Rightarrow> loop_input \<Rightarrow> real \<Rightarrow> real \<Rightarrow> fw" where
  "periodic_upload st i hr_v spo2_v =
     (if in_periodic_now i - previousMillis st \<ge> DATA_INTERVAL
      then sendDataToCloud (st\<lparr>previousMillis := in_periodic_now i\<rparr>) hr_v spo2_v
             (in_accel i) (in_gyro i) (in_periodic i)
      else st)"

text \<open>
  \<^verbatim>\<open>loop()\<close>: the connectivity check, section A, the detectors of section B, the
  escalation of sections C, D and D2, and the periodic upload of section E. The values
  \<^verbatim>\<open>currentHR\<close> and \<^verbatim>\<open>currentSpO2\<close> are fixed after section A.
\<close>

definition loop :: "fw \<Rightarrow> loop_input \<Rightarrow> fw" where
  "loop st i =
     (let st1 = read_vitals (wifi_check st (in_wifi i)) (in_vitals i);
          hr_v = currentHR st1 (in_vitals i);
          spo2_v = currentSpO2 st1 (in_vitals i)
      in periodic_upload (escalate (detect st1 i) i hr_v spo2_v) i hr_v spo2_v)"

fun run :: "fw \<Rightarrow> loop_input list \<Rightarrow> fw" where
  "run st [] = st"
| "run st (i # is) = run (loop st i) is"

text \<open>
  The values \<^verbatim>\<open>currentHR\<close> and \<^verbatim>\<open>currentSpO2\<close> of one pass, and of each pass of a
  run. A pass without contact is one whose infrared value does not exceed the threshold.
\<close>

definition report :: "fw \<Rightarrow> loop_input \<Rightarrow> real \<times> real" where
  "report st i =
     (let st1 = read_vitals (wifi_check st (in_wifi i)) (in_vitals i)
      in (currentHR st1 (in_vitals i), currentSpO2 st1 (in_vitals i)))"

fun reports :: "fw \<Rightarrow> loop_input list \<Rightarrow> (real \<times> real) list" where
  "reports st [] = []"
| "reports st (i # is) = report st i # reports (loop st i) is"

definition no_contact :: "loop_input \<Rightarrow> bool" where
  "no_contact i = (\<not> fingerDetected (in_vitals i))"

section \<open>Parts of the state\<close>

text \<open>
  The globals of the acquisition pipeline, and those of the escalation and the fall
  detector together with the trace of modem writes. The transport functions touch neither.
\<close>

definition vitals_of ::
  "fw \<Rightarrow> nat list \<times> nat \<times> millis \<times> int \<times> int \<times> real \<times> real \<times> bool" where
  "vitals_of st = (rates st, rateSpot st, lastBeat st, beatAvg st, validBeatCount st,
     lastValidSpO2 st, lastValidHR st, wasFingerDetected st)"

definition alarm_of :: "fw \<Rightarrow> bool \<times> bool \<times> millis \<times> bool \<times> millis \<times> gsm_write list" where
  "alarm_of st = (emergencyActive st, emergencyHandled st, lastCallTime st, fallPending st,
     fallDetectedTime st, gsm_tx st)"

text \<open>The two emergency flags are not both set: the state is Idle, Active or Handled.\<close>

definition flags_exclusive :: "fw \<Rightarrow> bool" where
  "flags_exclusive st = (\<not> (emergencyActive st \<and> emergencyHandled st))"

section \<open>Concrete states and inputs\<close>

text \<open>A device whose fall detector has raised an emergency 40 seconds after boot.\<close>

definition st_active :: fw where
  "st_active = triggerEmergency (boot ''A0B1C2D3E4F5'' True) FALL_MSG SmsConfirmed 40000"

text \<open>
  Two passes of the call monitor: one in which the modem reports the call as alerting and
  no message has come, one in which the poll reads a notification for a message that says
  \<^verbatim>\<open>I am OK\<close>.
\<close>

definition quiet_poll :: "millis \<Rightarrow> call_poll" where
  "quiet_poll t =
     \<lparr>poll_time = t,
      poll_sms = \<lparr>rx_available = False, rx_data = [], rx_content = [], rx_reply = NoPrompt\<rparr>,
      clcc_available = True, clcc_resp = ''+CLCC: 1,0,2,0,0''\<rparr>"

definition ack_poll :: "millis \<Rightarrow> call_poll" where
  "ack_poll t =
     \<lparr>poll_time = t,
      poll_sms = \<lparr>rx_available = True, rx_data = ''+CMTI: SM,3'', rx_content = ''I am OK'',
                  rx_reply = SmsConfirmed\<rparr>,
      clcc_available = True, clcc_resp = ''+CLCC: 1,0,3,0,0''\<rparr>"

text \<open>
  A pass in which no message has come when \<^verbatim>\<open>checkForIncomingSMS\<close> looks, and the
  notification of the acknowledgment arrives during the half second that follows
  \<^verbatim>\<open>AT+CLCC\<close>: \<^verbatim>\<open>readString()\<close> returns it behind the answer of the modem, which
  reports the call as alerting.
\<close>

definition swallow_poll :: "millis \<Rightarrow> call_poll" where
  "swallow_poll t =
     \<lparr>poll_time = t,
      poll_sms = \<lparr>rx_available = False, rx_data = [], rx_content = [], rx_reply = NoPrompt\<rparr>,
      clcc_available = True, clcc_resp = ''+CLCC: 1,0,3,0,0 OK +CMTI: SM,3''\<rparr>"

text \<open>
  The call attempt of the device above at 40 seconds in which the acknowledgment is
  swallowed in the first pass and the next two passes are quiet, and the state in which
  \<^verbatim>\<open>handleEmergencyCalls\<close> leaves the device.
\<close>

definition missed_polls :: "call_poll list" where
  "missed_polls = [swallow_poll 40000, quiet_poll 41500, quiet_poll 43000]"

definition st_missed :: fw where
  "st_missed = handleEmergencyCalls st_active 40000 missed_polls"

text \<open>A connected network on which every POST returns the code 0.\<close>

definition zero_env :: wifi_env where
  "zero_env = \<lparr>wifi_status_connected = True, post_response = (\<lambda>n. 0)\<rparr>"

text \<open>
  A device that booted without WiFi and has queued one reading, and a network on which the
  first POST returns 200.
\<close>

definition st_queued :: fw where
  "st_queued = queueData (boot ''A0B1C2D3E4F5'' False) 72 98
     \<lparr>vec_x = 0, vec_y = 0, vec_z = 10\<rparr> \<lparr>vec_x = 0, vec_y = 0, vec_z = 0\<rparr>"

definition env_ok :: upload_env where
  "env_ok = \<lparr>cloud_now = 50000, wifi_up = True,
     wifi = \<lparr>wifi_status_connected = True, post_response = (\<lambda>n. 200)\<rparr>,
     gsm = \<lparr>gprs_init_ok = False, http_init_ok = False, url_ok = False,
             download_prompt = False, action_ok = False\<rparr>\<rparr>"

text \<open>
  One pass of the loop at clock \<open>t\<close> with a given infrared value, beat report and
  motion reading: WiFi is up, no message and no command arrive, the button is not pressed,
  and uploads and notifications succeed two seconds into the pass. Then some motion
  readings, and the state after a first pass with a finger on the sensor and a beat.
\<close>

definition alert_ok :: "millis \<Rightarrow> alert_env" where
  "alert_ok t = \<lparr>al_upload = env_ok, al_reply = SmsConfirmed, al_now = t\<rparr>"

definition pass_at :: "millis \<Rightarrow> int \<Rightarrow> bool \<Rightarrow> sensors_vec \<Rightarrow> sensors_vec \<Rightarrow> loop_input" where
  "pass_at t ir b a g =
     \<lparr>in_wifi = \<lparr>wifiStatus = WL_CONNECTED, w_now = t, queue_envs = (\<lambda>n. env_ok)\<rparr>,
      in_vitals = \<lparr>irValue = ir, beat = b, v_now = t, sample_available = False, spo2Value = 0,
                    validSPO2 = 0, heartRateValue = 0, validHeartRate = 0\<rparr>,
      in_accel = a, in_gyro = g, in_now = t, in_fall = alert_ok (t + 2000),
      in_alert = alert_ok (t + 2000), in_call_now = t + 2000, in_call_polls = [],
      in_sms = \<lparr>rx_available = False, rx_data = [], rx_content = [], rx_reply = NoPrompt\<rparr>,
      in_manual = \<lparr>serial_available = False, cmd = CHR ''S'', serial_env = alert_ok t,
                    button_low = False, button_now = t, button_env = alert_ok t\<rparr>,
      in_periodic_now = t + 2000, in_periodic = env_ok\<rparr>"

definition at_rest :: sensors_vec where
  "at_rest = \<lparr>vec_x = 0, vec_y = 0, vec_z = 5\<rparr>"

definition no_turn :: sensors_vec where
  "no_turn = \<lparr>vec_x = 0, vec_y = 0, vec_z = 0\<rparr>"

definition impact :: sensors_vec where
  "impact = \<lparr>vec_x = 0, vec_y = 0, vec_z = 30\<rparr>"

definition tumble :: sensors_vec where
  "tumble = \<lparr>vec_x = 0, vec_y = 0, vec_z = 250\<rparr>"

definition st_contact :: fw where
  "st_contact = loop (boot ''A0B1C2D3E4F5'' True) (pass_at 750 60000 True at_rest no_turn)"

text \<open>
  A pass at 120000 ms with an impact and a tumble, in which the periodic upload falls due
  and keeps the loop busy, and the next pass at 125000 ms, five seconds later, with the
  wearer at rest.
\<close>

definition st_impact :: fw where
  "st_impact = loop (boot ''A0B1C2D3E4F5'' True) (pass_at 120000 1200 False impact tumble)"

definition st_late :: fw where
  "st_late = loop st_impact (pass_at 125000 1200 False at_rest no_turn)"

section \<open>Properties of the offline queue\<close>

lemma rotate_update_head:
  assumes "h < length xs"
  shows "rotate ((h + 1) mod length xs) (xs[h := v]) = tl (rotate h xs) @ [v]"
proof -
  have r: "rotate h ys = drop h ys @ take h ys" if "h < length ys" for ys :: "'a list"
    using that by (simp add: rotate_drop_take)
  have "rotate ((h + 1) mod length xs) (xs[h := v]) = rotate (Suc h) (xs[h := v])"
    by (metis Suc_eq_plus1 length_list_update rotate_conv_mod)
  also have "\<dots> = rotate1 (rotate h (xs[h := v]))"
    by simp
  also have "rotate h (xs[h := v]) = (v # drop (Suc h) xs) @ take h xs"
    using assms by (simp add: r drop_update_cancel upd_conv_take_nth_drop)
  also have "rotate1 ((v # drop (Suc h) xs) @ take h xs) = (drop (Suc h) xs @ take h xs) @ [v]"
    by simp
  also have "drop (Suc h) xs @ take h xs = tl (rotate h xs)"
    using assms by (simp add: r drop_Suc tl_drop)
  finally show ?thesis .
qed

lemma ring_queueData:
  assumes "queue_ok st"
  shows "ring (queueData st h s a g) = tl (ring st) @ [slot_of h s a g]"
  using assms rotate_update_head [of "queueHead st" "dataQueue st" "slot_of h s a g"]
  by (simp add: ring_def queueData_def queue_ok_def)

lemma queue_ok_queueData: "queue_ok st \<Longrightarrow> queue_ok (queueData st h s a g)"
  by (simp add: queue_ok_def queueData_def DATA_QUEUE_SIZE_def)

lemma queue_ok_boot: "queue_ok (boot mac w)"
  by (simp add: queue_ok_def boot_def DATA_QUEUE_SIZE_def)

lemma enqueue_all_snoc:
  "enqueue_all st (rs @ [(h, s, a, g)]) = queueData (enqueue_all st rs) h s a g"
  by (induction st rs rule: enqueue_all.induct) simp_all

lemma queue_ok_enqueue_all: "queue_ok st \<Longrightarrow> queue_ok (enqueue_all st rs)"
  by (induction st rs rule: enqueue_all.induct) (simp_all add: queue_ok_queueData)

lemma ring_enqueue_all_boot:
  "ring (enqueue_all (boot mac w) rs) =
     replicate (DATA_QUEUE_SIZE - length rs) empty_slot
       @ map slot_of_reading (drop (length rs - DATA_QUEUE_SIZE) rs)"
proof (induction rs rule: rev_induct)
  case Nil
  show ?case by (simp add: ring_def boot_def)
next
  case (snoc r rs)
  obtain h s a g where r: "r = (h, s, a, g)" by (cases r) auto
  have ok: "queue_ok (enqueue_all (boot mac w) rs)"
    by (rule queue_ok_enqueue_all [OF queue_ok_boot])
  have step: "ring (enqueue_all (boot mac w) (rs @ [r])) =
      tl (ring (enqueue_all (boot mac w) rs)) @ [slot_of_reading r]"
    by (simp add: r enqueue_all_snoc ring_queueData [OF ok] slot_of_reading_def)
  show ?case
  proof (cases "length rs < DATA_QUEUE_SIZE")
    case True
    then have "DATA_QUEUE_SIZE - length rs = Suc (DATA_QUEUE_SIZE - length (rs @ [r]))"
      by simp
    with True show ?thesis
      by (simp add: step snoc.IH)
  next
    case False
    then have len: "length rs - DATA_QUEUE_SIZE < length rs"
      by (simp add: DATA_QUEUE_SIZE_def)
    have "tl (drop (length rs - DATA_QUEUE_SIZE) rs) = drop (Suc (length rs) - DATA_QUEUE_SIZE) rs"
      using False by (simp add: tl_drop drop_Suc Suc_diff_le)
    with False len show ?thesis
      by (simp add: step snoc.IH map_tl [symmetric] del: map_tl)
  qed
qed

lemma pending_slot_of_reading: "filter pending (map slot_of_reading rs) = map slot_of_reading rs"
  by (induction rs) (auto simp: slot_of_reading_def slot_of_def)

text \<open>
  Claim C5. After any sequence of \<^verbatim>\<open>queueData\<close> calls on the queue that
  \<^verbatim>\<open>setup()\<close> leaves, the write index is inside the array of five slots, at most five
  slots are pending, and the pending slots are, oldest first, the last five readings
  that were enqueued: an enqueue into a full queue replaces the oldest pending slot.
\<close>

theorem queue_bounded_overwrites_oldest:
  "queueHead (enqueue_all (boot mac w) rs) < DATA_QUEUE_SIZE
   \<and> length (dataQueue (enqueue_all (boot mac w) rs)) = DATA_QUEUE_SIZE
   \<and> DATA_QUEUE_SIZE = 5
   \<and> length (pending_slots (enqueue_all (boot mac w) rs)) = min (length rs) 5
   \<and> pending_slots (enqueue_all (boot mac w) rs)
       = map slot_of_reading (drop (length rs - 5) rs)"
proof -
  let ?st = "enqueue_all (boot mac w) rs"
  have ok: "queue_ok ?st"
    by (rule queue_ok_enqueue_all [OF queue_ok_boot])
  have "filter pending (replicate n empty_slot) = []" for n
    by (simp add: empty_slot_def)
  then have p: "pending_slots ?st = map slot_of_reading (drop (length rs - 5) rs)"
    by (simp add: pending_slots_def ring_enqueue_all_boot pending_slot_of_reading
        DATA_QUEUE_SIZE_def)
  from ok p show ?thesis
    by (auto simp: queue_ok_def DATA_QUEUE_SIZE_def)
qed

section \<open>The transport functions leave the other globals alone\<close>

lemma http_log_keeps:
  "vitals_of (s\<lparr>http_log := l\<rparr>) = vitals_of s" "alarm_of (s\<lparr>http_log := l\<rparr>) = alarm_of s"
  by (simp_all add: vitals_of_def alarm_of_def)

lemma wifi_attempts_keeps:
  "vitals_of (fst (wifi_attempts st p r n)) = vitals_of st
   \<and> alarm_of (fst (wifi_attempts st p r n)) = alarm_of st"
proof (induction st p r n rule: wifi_attempts.induct)
  case (1 st payload resp attempt)
  consider (stop) "\<not> attempt \<le> MAX_UPLOAD_RETRIES \<or> resp attempt > 0"
    | (again) "attempt < MAX_UPLOAD_RETRIES" "\<not> resp attempt > 0"
    | (last) "attempt = MAX_UPLOAD_RETRIES" "\<not> resp attempt > 0"
    by linarith
  then show ?case
  proof cases
    case stop
    then show ?thesis
      by (subst (1 2) wifi_attempts.simps) (auto simp: http_log_keeps)
  next
    case again
    with "1.IH"(1) show ?thesis
      by (subst (1 2) wifi_attempts.simps) (simp add: http_log_keeps)
  next
    case last
    with "1.IH"(2) show ?thesis
      by (subst (1 2) wifi_attempts.simps) (simp add: http_log_keeps)
  qed
qed

lemma sendDataViaWiFi_keeps:
  "vitals_of (fst (sendDataViaWiFi st p e)) = vitals_of st
   \<and> alarm_of (fst (sendDataViaWiFi st p e)) = alarm_of st"
  by (simp add: sendDataViaWiFi_def wifi_attempts_keeps http_log_keeps)

lemma sendDataViaGSM_keeps:
  "vitals_of (fst (sendDataViaGSM st p e)) = vitals_of st
   \<and> alarm_of (fst (sendDataViaGSM st p e)) = alarm_of st"
  by (simp add: sendDataViaGSM_def Let_def vitals_of_def alarm_of_def)

lemma queueData_keeps:
  "vitals_of (queueData st h s a g) = vitals_of st \<and> alarm_of (queueData st h s a g) = alarm_of st"
  by (simp add: queueData_def vitals_of_def alarm_of_def)

lemma sendDataToCloud_keeps:
  "vitals_of (sendDataToCloud st h s a g e) = vitals_of st
   \<and> alarm_of (sendDataToCloud st h s a g e) = alarm_of st"
  by (simp add: sendDataToCloud_def Let_def sendDataViaWiFi_keeps sendDataViaGSM_keeps queueData_keeps)

lemma sendEmergencyDataToCloud_keeps:
  "vitals_of (sendEmergencyDataToCloud st h s a g e) = vitals_of st
   \<and> alarm_of (sendEmergencyDataToCloud st h s a g e) = alarm_of st"
  by (simp add: sendEmergencyDataToCloud_def Let_def sendDataViaWiFi_keeps sendDataViaGSM_keeps)

lemma upload_slot_keeps:
  "vitals_of (upload_slot st i e) = vitals_of st \<and> alarm_of (upload_slot st i e) = alarm_of st"
proof -
  have k: "vitals_of (s\<lparr>dataQueue := q\<rparr>) = vitals_of s" "alarm_of (s\<lparr>dataQueue := q\<rparr>) = alarm_of s"
    for s :: fw and q
    by (simp_all add: vitals_of_def alarm_of_def)
  show ?thesis
    by (simp add: upload_slot_def Let_def k sendDataViaWiFi_keeps sendDataViaGSM_keeps)
qed

lemma fold_upload_slot_keeps:
  "vitals_of (fold (\<lambda>i s. upload_slot s i (envs i)) ns st) = vitals_of st
   \<and> alarm_of (fold (\<lambda>i s. upload_slot s i (envs i)) ns st) = alarm_of st"
  by (induction ns arbitrary: st) (simp_all add: upload_slot_keeps)

lemma uploadQueuedData_keeps:
  "vitals_of (uploadQueuedData st envs) = vitals_of st
   \<and> alarm_of (uploadQueuedData st envs) = alarm_of st"
  by (simp add: uploadQueuedData_def fold_upload_slot_keeps)

lemma wifi_check_keeps:
  "vitals_of (wifi_check st i) = vitals_of st \<and> alarm_of (wifi_check st i) = alarm_of st"
proof -
  have k: "vitals_of (s\<lparr>wifiConnected := c\<rparr>) = vitals_of s"
       "alarm_of (s\<lparr>wifiConnected := c\<rparr>) = alarm_of s"
       "vitals_of (s\<lparr>lastWiFiCheck := t\<rparr>) = vitals_of s"
       "alarm_of (s\<lparr>lastWiFiCheck := t\<rparr>) = alarm_of s"
    for s :: fw and c t
    by (simp_all add: vitals_of_def alarm_of_def)
  show ?thesis
    by (simp add: wifi_check_def Let_def k uploadQueuedData_keeps)
qed

section \<open>Escalation is idempotent\<close>

lemma sms_sends_sendSMS:
  "sms_sends (gsm_tx (fst (sendSMS st EMERGENCY_PHONE msg reply))) = Suc (sms_sends (gsm_tx st))"
  by (simp add: sendSMS_def sms_sends_def CMGS_def Let_def EMERGENCY_PHONE_def)

lemma triggerEmergency_noop:
  "emergencyActive st \<or> emergencyHandled st \<Longrightarrow> triggerEmergency st msg reply now = st"
  by (simp add: triggerEmergency_def)

lemma triggerEmergency_flags:
  "\<not> emergencyActive st \<Longrightarrow> \<not> emergencyHandled st \<Longrightarrow>
   emergencyActive (triggerEmergency st msg reply now)
   \<and> \<not> emergencyHandled (triggerEmergency st msg reply now)"
  by (simp add: triggerEmergency_def sendSMS_def Let_def)

lemma triggerEmergency_sends:
  "sms_sends (gsm_tx (triggerEmergency st msg reply now)) =
     (if emergencyActive st \<or> emergencyHandled st then sms_sends (gsm_tx st)
      else Suc (sms_sends (gsm_tx st)))"
  by (simp add: triggerEmergency_def Let_def sms_sends_sendSMS)

lemma trigger_all_noop:
  "emergencyActive st \<or> emergencyHandled st \<Longrightarrow> trigger_all st ts = st"
  by (induction st ts rule: trigger_all.induct) (simp_all add: triggerEmergency_noop)

lemma trigger_all_sends:
  "sms_sends (gsm_tx (trigger_all st ts)) \<le> Suc (sms_sends (gsm_tx st))"
proof (cases ts)
  case Nil
  then show ?thesis by simp
next
  case (Cons t ts')
  obtain msg reply now where t: "t = (msg, reply, now)" by (cases t) auto
  let ?st1 = "triggerEmergency st msg reply now"
  have "emergencyActive ?st1 \<or> emergencyHandled ?st1"
    using triggerEmergency_noop [of st msg reply now] triggerEmergency_flags [of st msg reply now]
    by (cases "emergencyActive st \<or> emergencyHandled st") auto
  then have "trigger_all st ts = ?st1"
    by (simp add: Cons t trigger_all_noop)
  then show ?thesis
    by (simp add: triggerEmergency_sends)
qed

lemma fall_impact_suppressed:
  "emergencyActive st \<or> emergencyHandled st \<Longrightarrow> fall_impact st now am gm = st"
  by (auto simp: fall_impact_def)

lemma fall_confirm_suppressed:
  "emergencyActive st \<or> emergencyHandled st \<Longrightarrow>
   fall_confirm st now am h s a g e =
     (if fallPending st \<and> now - fallDetectedTime st \<ge> FALL_CONFIRM_DELAY
      then st\<lparr>fallPending := False\<rparr> else st)"
  by (auto simp: fall_confirm_def Let_def)

lemma vitals_check_suppressed:
  "emergencyActive st \<or> emergencyHandled st \<Longrightarrow> vitals_check st f h s a g e = st"
  by (auto simp: vitals_check_def Let_def)

lemma detect_suppressed:
  assumes "emergencyActive st \<or> emergencyHandled st"
  shows "detect st i = st \<or> detect st i = st\<lparr>fallPending := False\<rparr>"
proof -
  define hr_v where "hr_v = currentHR st (in_vitals i)"
  define spo2_v where "spo2_v = currentSpO2 st (in_vitals i)"
  define s2 where
    "s2 = fall_confirm st (in_now i) (magnitude (in_accel i)) hr_v spo2_v (in_accel i) (in_gyro i) (in_fall i)"
  define s3 where "s3 = fall_timeout s2 (in_now i)"
  have s2: "s2 = st \<or> s2 = st\<lparr>fallPending := False\<rparr>"
    by (simp add: s2_def fall_confirm_suppressed [OF assms])
  then have s3: "s3 = st \<or> s3 = st\<lparr>fallPending := False\<rparr>"
    by (auto simp: s3_def fall_timeout_def)
  then have "emergencyActive s3 \<or> emergencyHandled s3"
    using assms by auto
  then have "vitals_check s3 f hr_v spo2_v a g e = s3" for f a g e
    by (rule vitals_check_suppressed)
  then have "detect st i = s3"
    by (simp add: detect_def fall_detection_def Let_def fall_impact_suppressed [OF assms]
        s2_def s3_def hr_v_def spo2_v_def)
  with s3 show ?thesis by simp
qed

text \<open>
  Claim C2. In a state that is Active or Handled, any sequence of \<^verbatim>\<open>triggerEmergency\<close>
  calls leaves the state as it is, and one pass of the two detectors of the loop changes
  at most \<^verbatim>\<open>fallPending\<close> and sends no message. From any state, a sequence of
  \<^verbatim>\<open>triggerEmergency\<close> calls sends at most one message.
\<close>

theorem escalation_idempotent:
  "(emergencyActive st \<or> emergencyHandled st \<longrightarrow>
      trigger_all st ts = st
      \<and> (detect st i = st \<or> detect st i = st\<lparr>fallPending := False\<rparr>)
      \<and> sms_sends (gsm_tx (detect st i)) = sms_sends (gsm_tx st))
   \<and> sms_sends (gsm_tx (trigger_all st ts)) \<le> Suc (sms_sends (gsm_tx st))"
proof -
  have "sms_sends (gsm_tx (detect st i)) = sms_sends (gsm_tx st)"
    if "emergencyActive st \<or> emergencyHandled st"
    using detect_suppressed [OF that, of i] by auto
  then show ?thesis
    using trigger_all_noop [of st ts] trigger_all_sends [of st ts] detect_suppressed [of st i]
    by blast
qed

theorem escalation_idempotent_witness:
  "emergencyActive st_active
   \<and> sms_sends (gsm_tx st_active) = 1
   \<and> trigger_all st_active [(FALL_MSG, SmsConfirmed, 41000), ([Lit ''again''], NoPrompt, 42000)]
       = st_active
   \<and> sms_sends (gsm_tx (trigger_all (boot ''A0B1C2D3E4F5'' True)
        [(FALL_MSG, SmsConfirmed, 40000), (FALL_MSG, SmsConfirmed, 41000)])) \<le> 1"
proof -
  have a: "emergencyActive st_active"
    by (simp add: st_active_def triggerEmergency_def sendSMS_def boot_def Let_def)
  have s: "sms_sends (gsm_tx st_active) = 1"
    unfolding st_active_def triggerEmergency_sends by (simp add: boot_def sms_sends_def)
  have z: "sms_sends (gsm_tx (boot ''A0B1C2D3E4F5'' True)) = 0"
    by (simp add: boot_def sms_sends_def)
  show ?thesis
    using a s z
      escalation_idempotent [of st_active
        "[(FALL_MSG, SmsConfirmed, 41000), ([Lit ''again''], NoPrompt, 42000)]"]
      escalation_idempotent [of "boot ''A0B1C2D3E4F5'' True"
        "[(FALL_MSG, SmsConfirmed, 40000), (FALL_MSG, SmsConfirmed, 41000)]"]
    by simp
qed


section \<open>Accepting the results of the estimation routine\<close>

lemma spo2_result_closed:
  "spo2_result st i =
     st\<lparr>lastValidSpO2 :=
          (if validSPO2 i \<noteq> 0 \<and> 70 \<le> spo2Value i \<and> spo2Value i \<le> 100
           then real_of_int (spo2Value i) else lastValidSpO2 st),
        lastValidHR :=
          (if validHeartRate i \<noteq> 0 \<and> 40 \<le> heartRateValue i \<and> heartRateValue i \<le> 180
              \<and> validBeatCount st < 4
           then real_of_int (heartRateValue i) else lastValidHR st)\<rparr>"
  by (auto simp: spo2_result_def Let_def)

lemma spo2_collection_runs_routine:
  "spo2_collection st i =
     (if window_full st i
      then spo2_result (st\<lparr>lastSpo2Sample := v_now i,
                           spo2SampleIndex := (spo2SampleIndex st + 1) mod 256,
                           spo2CollectionActive := False, lastSpO2Calc := v_now i\<rparr>) i
      else (spo2_collection st i)\<lparr>lastValidSpO2 := lastValidSpO2 st, lastValidHR := lastValidHR st\<rparr>)"
  by (auto simp: spo2_collection_def window_full_def Let_def SPO2_SAMPLE_INTERVAL_def)

text \<open>
  Claim C9. The pass in which the window fills runs the estimation routine, and no other
  pass lets the SpO2 step change a cached value. In that pass the cached SpO2 becomes the
  routine's value exactly when that value is valid and in \<open>[70, 100]\<close>, and the cached
  heart rate becomes the routine's estimate exactly when it is valid, in \<open>[40, 180]\<close>,
  and fewer than 4 beats are in the history; otherwise the cached values stay as they are.
\<close>

theorem spo2_result_accepts:
  "lastValidSpO2 (spo2_collection st i) =
     (if window_full st i \<and> validSPO2 i \<noteq> 0 \<and> 70 \<le> spo2Value i \<and> spo2Value i \<le> 100
      then real_of_int (spo2Value i) else lastValidSpO2 st)
   \<and> lastValidHR (spo2_collection st i) =
     (if window_full st i \<and> validHeartRate i \<noteq> 0 \<and> 40 \<le> heartRateValue i
         \<and> heartRateValue i \<le> 180 \<and> validBeatCount st < 4
      then real_of_int (heartRateValue i) else lastValidHR st)"
proof (cases "window_full st i")
  case True
  then show ?thesis
    by (subst (1 2) spo2_collection_runs_routine) (simp add: spo2_result_closed)
next
  case False
  then show ?thesis
    by (subst (1 2) spo2_collection_runs_routine) simp
qed

section \<open>The emergency flags exclude each other\<close>

lemma alarm_of_exclusive: "alarm_of s = alarm_of t \<Longrightarrow> flags_exclusive s = flags_exclusive t"
  by (simp add: alarm_of_def flags_exclusive_def)

lemma sendSMS_flags:
  "emergencyActive (fst (sendSMS st n m r)) = emergencyActive st"
  "emergencyHandled (fst (sendSMS st n m r)) = emergencyHandled st"
  by (simp_all add: sendSMS_def Let_def)

lemma triggerEmergency_exclusive:
  "flags_exclusive st \<Longrightarrow> flags_exclusive (triggerEmergency st msg reply now)"
  by (simp add: triggerEmergency_def flags_exclusive_def Let_def sendSMS_flags)

lemma checkForIncomingSMS_exclusive:
  "flags_exclusive st \<Longrightarrow> flags_exclusive (checkForIncomingSMS st p)"
  by (simp add: checkForIncomingSMS_def flags_exclusive_def Let_def sendSMS_flags)

lemma monitor_call_exclusive:
  "flags_exclusive st \<Longrightarrow> flags_exclusive (fst (monitor_call st cs ps))"
proof (induction ps arbitrary: st)
  case Nil
  then show ?case by simp
next
  case (Cons p ps)
  let ?s1 = "checkForIncomingSMS st (poll_sms p)"
  have s1: "flags_exclusive ?s1"
    by (rule checkForIncomingSMS_exclusive [OF Cons.prems])
  then have "flags_exclusive (?s1\<lparr>gsm_tx := tx\<rparr>)" for tx
    by (simp add: flags_exclusive_def)
  then have "flags_exclusive (fst (monitor_call (?s1\<lparr>gsm_tx := tx\<rparr>) cs ps))" for tx
    by (rule Cons.IH)
  with Cons.prems s1 show ?case
    by (auto simp: Let_def flags_exclusive_def)
qed

lemma handleEmergencyCalls_exclusive:
  assumes "flags_exclusive st"
  shows "flags_exclusive (handleEmergencyCalls st now polls)"
proof -
  have "flags_exclusive (st\<lparr>lastCallTime := t, gsm_tx := tx\<rparr>)" for t tx
    using assms by (simp add: flags_exclusive_def)
  then have "flags_exclusive (fst (monitor_call (st\<lparr>lastCallTime := t, gsm_tx := tx\<rparr>) now polls))" for t tx
    by (rule monitor_call_exclusive)
  with assms show ?thesis
    by (simp add: handleEmergencyCalls_def Let_def) (simp add: flags_exclusive_def)
qed

lemma triggerManualEmergency_exclusive:
  "flags_exclusive (triggerManualEmergency st h s a g e)"
proof -
  let ?s1 = "st\<lparr>emergencyActive := False, emergencyHandled := False\<rparr>"
  have "flags_exclusive ?s1" by (simp add: flags_exclusive_def)
  then have "flags_exclusive (sendEmergencyDataToCloud ?s1 h' s' a g u)" for h' s' u
    using alarm_of_exclusive sendEmergencyDataToCloud_keeps by blast
  then show ?thesis
    by (simp add: triggerManualEmergency_def Let_def triggerEmergency_exclusive)
qed

lemma checkManualEmergencyTrigger_exclusive:
  assumes "flags_exclusive st"
  shows "flags_exclusive (checkManualEmergencyTrigger st h s a g i)"
proof -
  have upd: "flags_exclusive (x\<lparr>buttonPressed := b\<rparr>) = flags_exclusive x"
    "flags_exclusive (x\<lparr>buttonPressed := b, buttonPressStart := t\<rparr>) = flags_exclusive x"
    "flags_exclusive (x\<lparr>emergencyActive := False, emergencyHandled := False\<rparr>)" for x b t
    by (simp_all add: flags_exclusive_def)
  show ?thesis
    using assms
    by (simp add: checkManualEmergencyTrigger_def Let_def upd triggerManualEmergency_exclusive)
qed


lemma detect_exclusive:
  assumes "flags_exclusive st"
  shows "flags_exclusive (detect st i)"
proof -
  have ft: "flags_exclusive (fall_timeout s t) = flags_exclusive s" for s t
    by (simp add: fall_timeout_def flags_exclusive_def)
  have fi: "flags_exclusive (fall_impact s t am gm) = flags_exclusive s" for s t am gm
    by (simp add: fall_impact_def flags_exclusive_def)
  have cloud: "flags_exclusive (sendDataToCloud s h v a g e) = flags_exclusive s" for s h v a g e
    using alarm_of_exclusive sendDataToCloud_keeps by blast
  have fp: "flags_exclusive (s\<lparr>fallPending := b\<rparr>) = flags_exclusive s" for s b
    by (simp add: flags_exclusive_def)
  have fc: "flags_exclusive s \<Longrightarrow> flags_exclusive (fall_confirm s t am h v a g e)" for s t am h v a g e
    by (simp add: fall_confirm_def Let_def cloud fp triggerEmergency_exclusive)
  have vc: "flags_exclusive s \<Longrightarrow> flags_exclusive (vitals_check s f h v a g e)" for s f h v a g e
    by (simp add: vitals_check_def Let_def cloud triggerEmergency_exclusive)
  show ?thesis
    using assms by (simp add: detect_def fall_detection_def Let_def ft fi fc vc)
qed

lemma escalate_exclusive:
  "flags_exclusive st \<Longrightarrow> flags_exclusive (escalate st i h s)"
  by (simp add: escalate_def Let_def handleEmergencyCalls_exclusive
      checkForIncomingSMS_exclusive checkManualEmergencyTrigger_exclusive)

lemma periodic_upload_exclusive:
  "flags_exclusive (periodic_upload st i h s) = flags_exclusive st"
proof -
  have "flags_exclusive (sendDataToCloud (st\<lparr>previousMillis := t\<rparr>) h s a g e) = flags_exclusive st"
    for t a g e
    using alarm_of_exclusive [of "sendDataToCloud (st\<lparr>previousMillis := t\<rparr>) h s a g e"
        "st\<lparr>previousMillis := t\<rparr>"] sendDataToCloud_keeps
    by (simp add: flags_exclusive_def)
  then show ?thesis
    by (simp add: periodic_upload_def)
qed

lemma reset_readings_alarm: "alarm_of (reset_readings st) = alarm_of st"
  by (simp add: reset_readings_def alarm_of_def)

lemma beat_detected_alarm: "alarm_of (beat_detected st now) = alarm_of st"
  by (simp add: beat_detected_def Let_def alarm_of_def)

lemma spo2_result_alarm: "alarm_of (spo2_result st i) = alarm_of st"
  by (simp add: spo2_result_def Let_def alarm_of_def)

lemma spo2_collection_alarm: "alarm_of (spo2_collection st i) = alarm_of st"
proof -
  have k: "alarm_of (s\<lparr>spo2CollectionActive := c\<rparr>) = alarm_of s"
    "alarm_of (s\<lparr>spo2SampleIndex := n\<rparr>) = alarm_of s"
    "alarm_of (s\<lparr>lastSpo2Sample := t\<rparr>) = alarm_of s"
    "alarm_of (s\<lparr>lastSpO2Calc := t\<rparr>) = alarm_of s" for s :: fw and c n t
    by (simp_all add: alarm_of_def)
  show ?thesis
    by (simp add: spo2_collection_def Let_def spo2_result_alarm k)
qed

lemma read_vitals_alarm: "alarm_of (read_vitals st i) = alarm_of st"
proof -
  have k: "alarm_of (s\<lparr>wasFingerDetected := c\<rparr>) = alarm_of s" for s :: fw and c
    by (simp add: alarm_of_def)
  show ?thesis
    by (simp add: read_vitals_def Let_def spo2_collection_alarm beat_detected_alarm
        reset_readings_alarm k)
qed

lemma loop_exclusive:
  assumes "flags_exclusive st"
  shows "flags_exclusive (loop st i)"
proof -
  have "flags_exclusive (wifi_check st (in_wifi i))"
    using assms alarm_of_exclusive wifi_check_keeps by blast
  then have "flags_exclusive (read_vitals (wifi_check st (in_wifi i)) (in_vitals i))"
    using alarm_of_exclusive read_vitals_alarm by blast
  then show ?thesis
    by (simp add: loop_def Let_def periodic_upload_exclusive escalate_exclusive detect_exclusive)
qed

text \<open>
  Claim C10. After any number of passes of \<^verbatim>\<open>loop()\<close> from the state that
  \<^verbatim>\<open>setup()\<close> leaves, whatever the sensors, the modem, the serial console, the button
  and the network do in each pass, \<^verbatim>\<open>emergencyActive\<close> and \<^verbatim>\<open>emergencyHandled\<close>
  are not both set.
\<close>

theorem flags_never_both:
  "flags_exclusive (run (boot mac w) is)"
proof -
  have "flags_exclusive st \<Longrightarrow> flags_exclusive (run st is)" for st
    by (induction st "is" rule: run.induct) (simp_all add: loop_exclusive)
  moreover have "flags_exclusive (boot mac w)"
    by (simp add: flags_exclusive_def boot_def)
  ultimately show ?thesis .
qed

section \<open>An acknowledgment during a call attempt\<close>

lemma checkForIncomingSMS_ack:
  "is_ack p \<Longrightarrow>
   emergencyHandled (checkForIncomingSMS st p) \<and> \<not> emergencyActive (checkForIncomingSMS st p)"
  by (simp add: is_ack_def checkForIncomingSMS_def Let_def sendSMS_def)

lemma checkForIncomingSMS_no_ack:
  "\<not> is_ack p \<Longrightarrow> \<not> emergencyHandled st \<Longrightarrow> \<not> emergencyHandled (checkForIncomingSMS st p)"
  by (auto simp: is_ack_def checkForIncomingSMS_def Let_def sendSMS_def)

lemma monitor_call_ack:
  assumes "in_time cs p" and "is_ack (poll_sms p)"
  shows "monitor_call st cs (p # ps) =
    ((checkForIncomingSMS st (poll_sms p))
       \<lparr>gsm_tx := gsm_tx (checkForIncomingSMS st (poll_sms p)) @ [GPrintln ''ATH'']\<rparr>, Cancelled)"
  using assms checkForIncomingSMS_ack [OF assms(2), of st]
  by (simp add: in_time_def Let_def)

lemma monitor_call_quiet:
  assumes "in_time cs q" and "uneventful q" and "\<not> emergencyHandled st"
  shows "\<exists>st1. \<not> emergencyHandled st1 \<and> (\<forall>ps. monitor_call st cs (q # ps) = monitor_call st1 cs ps)"
proof -
  let ?s1 = "checkForIncomingSMS st (poll_sms q)"
  let ?s2 = "?s1\<lparr>gsm_tx := gsm_tx ?s1 @ [GPrintln ''AT+CLCC'']\<rparr>"
  have h: "\<not> emergencyHandled ?s1"
    using assms by (simp add: uneventful_def checkForIncomingSMS_no_ack)
  then have "\<not> emergencyHandled ?s2" by simp
  moreover have "monitor_call st cs (q # ps) = monitor_call ?s2 cs ps" for ps
    using assms(1,2) h by (auto simp: in_time_def uneventful_def Let_def)
  ultimately show ?thesis by blast
qed

lemma monitor_call_ack_after_quiet:
  assumes "list_all (\<lambda>q. in_time cs q \<and> uneventful q) qs" and "\<not> emergencyHandled st"
    and "in_time cs p" and "is_ack (poll_sms p)"
  shows "\<exists>st'. monitor_call st cs (qs @ p # ps) = (st', Cancelled)
           \<and> monitor_call st cs (qs @ [p]) = (st', Cancelled)
           \<and> emergencyHandled st' \<and> \<not> emergencyActive st'
           \<and> last (gsm_tx st') = GPrintln ''ATH''"
  using assms(1,2)
proof (induction qs arbitrary: st)
  case Nil
  then show ?case
    using checkForIncomingSMS_ack [OF assms(4)]
    by (simp add: monitor_call_ack [OF assms(3,4)] del: monitor_call.simps)
next
  case (Cons q qs)
  then obtain st1 where st1: "\<not> emergencyHandled st1"
      "\<And>ps. monitor_call st cs (q # ps) = monitor_call st1 cs ps"
    using monitor_call_quiet [of cs q st] by auto
  from Cons.prems have "list_all (\<lambda>q. in_time cs q \<and> uneventful q) qs" by simp
  from Cons.IH [OF this st1(1)] show ?case
    by (simp add: st1(2) del: monitor_call.simps)
qed

text \<open>
  When \<^verbatim>\<open>checkForIncomingSMS\<close> itself reads the acknowledgment, in a pass inside the
  25 seconds and after uneventful passes, \<^verbatim>\<open>handleEmergencyCalls\<close> returns in that
  pass: the state is Handled and no longer Active, the last command written to the modem is
  the hang-up \<^verbatim>\<open>ATH\<close>, and the result does not depend on any later pass.
\<close>

lemma ack_read_by_poll:
  assumes "emergencyActive st" and "\<not> emergencyHandled st"
    and "CALL_INTERVAL \<le> now - lastCallTime st"
    and "list_all (\<lambda>q. in_time now q \<and> uneventful q) qs"
    and "in_time now p" and "is_ack (poll_sms p)"
  shows "emergencyHandled (handleEmergencyCalls st now (qs @ p # ps))
    \<and> \<not> emergencyActive (handleEmergencyCalls st now (qs @ p # ps))
    \<and> last (gsm_tx (handleEmergencyCalls st now (qs @ p # ps))) = GPrintln ''ATH''
    \<and> handleEmergencyCalls st now (qs @ p # ps) = handleEmergencyCalls st now (qs @ [p])"
proof -
  let ?st1 = "st\<lparr>lastCallTime := now,
      gsm_tx := gsm_tx st @ [GPrint ''ATD'', GPrint EMERGENCY_PHONE, GPrintln '';'']\<rparr>"
  have "\<not> emergencyHandled ?st1" using assms(2) by simp
  from monitor_call_ack_after_quiet [OF assms(4) this assms(5,6), of ps]
  obtain st' where st': "monitor_call ?st1 now (qs @ p # ps) = (st', Cancelled)"
    "monitor_call ?st1 now (qs @ [p]) = (st', Cancelled)"
    "emergencyHandled st'" "\<not> emergencyActive st'" "last (gsm_tx st') = GPrintln ''ATH''"
    by blast
  have "handleEmergencyCalls st now (qs @ p # ps) = st'"
       "handleEmergencyCalls st now (qs @ [p]) = st'"
    using assms(1,2,3) st' by (simp_all add: handleEmergencyCalls_def Let_def)
  with st' show ?thesis by simp
qed

lemma ack_read_by_poll_example:
  "emergencyHandled
       (handleEmergencyCalls st_active 40000
          ([quiet_poll 40000, quiet_poll 41500] @ ack_poll 43000 # [quiet_poll 44500]))
   \<and> \<not> emergencyActive
       (handleEmergencyCalls st_active 40000
          ([quiet_poll 40000, quiet_poll 41500] @ ack_poll 43000 # [quiet_poll 44500]))
   \<and> last (gsm_tx (handleEmergencyCalls st_active 40000
          ([quiet_poll 40000, quiet_poll 41500] @ ack_poll 43000 # [quiet_poll 44500])))
       = GPrintln ''ATH''"
proof -
  have a: "emergencyActive st_active" "\<not> emergencyHandled st_active"
    by (simp_all add: st_active_def triggerEmergency_def sendSMS_def boot_def Let_def)
  have c: "CALL_INTERVAL \<le> 40000 - lastCallTime st_active"
    by (simp add: st_active_def triggerEmergency_def sendSMS_def boot_def Let_def CALL_INTERVAL_def)
  have q: "list_all (\<lambda>q. in_time 40000 q \<and> uneventful q) [quiet_poll 40000, quiet_poll 41500]"
    by (simp add: in_time_def uneventful_def quiet_poll_def is_ack_def indexOf_def)
  have t: "in_time 40000 (ack_poll 43000)"
    by (simp add: in_time_def ack_poll_def)
  have k: "is_ack (poll_sms (ack_poll 43000))"
    by (simp add: ack_poll_def is_ack_def indexOf_def)
  show ?thesis
    using ack_read_by_poll [OF a c q t k, of "[quiet_poll 44500]"] by blast
qed

text \<open>
  A pass whose poll finds nothing to read does not look for a notification in the answer to
  \<^verbatim>\<open>AT+CLCC\<close>: unless that answer reports an active call the pass changes nothing but
  the commands written, whatever else the answer holds.
\<close>

lemma monitor_call_drops_answer:
  assumes "in_time cs p" and "\<not> rx_available (poll_sms p)" and "\<not> emergencyHandled st"
    and "indexOf (clcc_resp p) ''+CLCC: 1,0,0,0,0'' = -1"
  shows "monitor_call st cs (p # ps) =
           monitor_call (st\<lparr>gsm_tx := gsm_tx st @ [GPrintln ''AT+CLCC'']\<rparr>) cs ps"
  using assms by (simp add: in_time_def checkForIncomingSMS_def)

text \<open>
  Claim C7. The claim fails when the acknowledgment arrives while the loop waits for the
  answer to \<^verbatim>\<open>AT+CLCC\<close>. A call attempt starts at 40 seconds with the emergency
  Active. In the first pass \<^verbatim>\<open>checkForIncomingSMS\<close> finds nothing, and the
  notification \<^verbatim>\<open>+CMTI:\<close> of the acknowledgment is in the text that
  \<^verbatim>\<open>readString()\<close> returns after \<^verbatim>\<open>AT+CLCC\<close>; the code only looks there for
  \<^verbatim>\<open>+CLCC: 1,0,0,0,0\<close>. The modem has nothing more to say in the next two passes,
  which are inside the 25 seconds. The message is never read (\<^verbatim>\<open>AT+CMGR\<close> is not
  written): after dialling, the modem is sent the three queries and the hang-up of the
  timeout, no poll after the acknowledgment leaves the loop, and the emergency is still
  Active and not Handled, so the calls go on.
\<close>

theorem ack_lost_in_clcc_read:
  "emergencyActive st_active \<and> \<not> emergencyHandled st_active
   \<and> CALL_INTERVAL \<le> 40000 - lastCallTime st_active
   \<and> indexOf (clcc_resp (hd missed_polls)) ''+CMTI:'' \<noteq> -1
   \<and> list_all (in_time 40000) missed_polls
   \<and> emergencyActive st_missed \<and> \<not> emergencyHandled st_missed
   \<and> GPrint ''AT+CMGR='' \<notin> set (gsm_tx st_missed)
   \<and> gsm_tx st_missed =
       gsm_tx st_active @ [GPrint ''ATD'', GPrint EMERGENCY_PHONE, GPrintln '';'',
         GPrintln ''AT+CLCC'', GPrintln ''AT+CLCC'', GPrintln ''AT+CLCC'', GPrintln ''ATH'']"
proof -
  let ?st1 = "st_active\<lparr>lastCallTime := 40000,
      gsm_tx := gsm_tx st_active @ [GPrint ''ATD'', GPrint EMERGENCY_PHONE, GPrintln '';'']\<rparr>"
  have a: "emergencyActive st_active" "\<not> emergencyHandled st_active"
    by (simp_all add: st_active_def triggerEmergency_def sendSMS_def boot_def Let_def)
  have c: "CALL_INTERVAL \<le> 40000 - lastCallTime st_active"
    by (simp add: st_active_def triggerEmergency_def sendSMS_def boot_def Let_def CALL_INTERVAL_def)
  have n: "indexOf (clcc_resp (hd missed_polls)) ''+CMTI:'' \<noteq> -1"
    by (simp add: missed_polls_def swallow_poll_def indexOf_def)
  have t: "in_time 40000 (swallow_poll 40000)" "in_time 40000 (quiet_poll 41500)"
    "in_time 40000 (quiet_poll 43000)"
    by (simp_all add: in_time_def swallow_poll_def quiet_poll_def)
  have r: "\<not> rx_available (poll_sms (swallow_poll t))" "\<not> rx_available (poll_sms (quiet_poll t))"
    "indexOf (clcc_resp (swallow_poll t)) ''+CLCC: 1,0,0,0,0'' = -1"
    "indexOf (clcc_resp (quiet_poll t)) ''+CLCC: 1,0,0,0,0'' = -1" for t
    by (simp_all add: swallow_poll_def quiet_poll_def indexOf_def)
  have m: "monitor_call ?st1 40000 missed_polls =
      (?st1\<lparr>gsm_tx := gsm_tx ?st1 @ [GPrintln ''AT+CLCC'', GPrintln ''AT+CLCC'', GPrintln ''AT+CLCC'']\<rparr>,
       TimedOut)"
    using a(2)
    by (simp add: missed_polls_def monitor_call_drops_answer t r del: monitor_call.simps(2))
  have h: "st_missed =
      ?st1\<lparr>gsm_tx := gsm_tx ?st1 @ [GPrintln ''AT+CLCC'', GPrintln ''AT+CLCC'', GPrintln ''AT+CLCC'',
                                        GPrintln ''ATH'']\<rparr>"
    using a c by (simp add: st_missed_def handleEmergencyCalls_def Let_def m del: monitor_call.simps)
  have g: "GPrint ''AT+CMGR='' \<notin> set (gsm_tx st_active)"
    by (simp add: st_active_def triggerEmergency_def sendSMS_def boot_def Let_def FALL_MSG_def
        CMGS_def EMERGENCY_PHONE_def)
  have e: "''AT+CMGR='' \<noteq> EMERGENCY_PHONE"
    by (simp add: EMERGENCY_PHONE_def)
  have l: "list_all (in_time 40000) missed_polls"
    by (simp add: missed_polls_def t)
  show ?thesis
    using a c n l g e by (simp add: h)
qed

section \<open>The WiFi upload\<close>

lemma wifi_attempts_unrolled:
  "wifi_attempts st p r (Suc 0) =
     (st\<lparr>http_log := http_log st @ separated (HttpDelay 1000) (replicate (attempts_made r) (HttpPost p))
          @ [HttpEnd]\<rparr>,
      0 < r 1 \<or> 0 < r 2 \<or> 0 < r 3)"
proof -
  have four: "wifi_attempts s p r (Suc (Suc (Suc (Suc 0)))) =
      (s\<lparr>http_log := http_log s @ [HttpEnd]\<rparr>, False)" for s
    by (subst wifi_attempts.simps) (simp add: MAX_UPLOAD_RETRIES_def)
  have three: "wifi_attempts s p r (Suc (Suc (Suc 0))) =
      (s\<lparr>http_log := http_log s @ [HttpPost p, HttpEnd]\<rparr>, 0 < r 3)" for s
    by (subst wifi_attempts.simps) (simp add: MAX_UPLOAD_RETRIES_def four eval_nat_numeral)
  have two: "wifi_attempts s p r (Suc (Suc 0)) =
      (if 0 < r 2 then (s\<lparr>http_log := http_log s @ [HttpPost p, HttpEnd]\<rparr>, True)
       else (s\<lparr>http_log := http_log s @ [HttpPost p, HttpDelay 1000, HttpPost p, HttpEnd]\<rparr>,
             0 < r 3))" for s
    by (subst wifi_attempts.simps) (simp add: MAX_UPLOAD_RETRIES_def three eval_nat_numeral)
  have one: "wifi_attempts s p r (Suc 0) =
      (if 0 < r 1 then (s\<lparr>http_log := http_log s @ [HttpPost p, HttpEnd]\<rparr>, True)
       else if 0 < r 2
       then (s\<lparr>http_log := http_log s @ [HttpPost p, HttpDelay 1000, HttpPost p, HttpEnd]\<rparr>, True)
       else (s\<lparr>http_log := http_log s @
               [HttpPost p, HttpDelay 1000, HttpPost p, HttpDelay 1000, HttpPost p, HttpEnd]\<rparr>,
             0 < r 3))" for s
    by (subst wifi_attempts.simps) (simp add: MAX_UPLOAD_RETRIES_def two eval_nat_numeral)
  show ?thesis
    by (simp add: one attempts_made_def eval_nat_numeral)
qed

text \<open>
  Claim C4, amended. Without a connection \<^verbatim>\<open>sendDataViaWiFi\<close> fails at once and makes
  no POST. With one it sets the timeout of 10 seconds once, makes at most 3 POSTs with a
  pause of one second between two of them, stops at the first POST that returns a code
  greater than 0, and reports success exactly when one of the POSTs returned a code greater
  than 0.
\<close>

theorem wifi_upload_retries:
  "sendDataViaWiFi st p e =
     (if wifi_status_connected e
      then (st\<lparr>http_log := http_log st @ wifi_trace p (attempts_made (post_response e))\<rparr>,
            0 < post_response e 1 \<or> 0 < post_response e 2 \<or> 0 < post_response e 3)
      else (st, False))
   \<and> 1 \<le> attempts_made (post_response e) \<and> attempts_made (post_response e) \<le> 3
   \<and> MAX_UPLOAD_RETRIES = 3 \<and> HTTP_TIMEOUT = 10000"
  by (simp add: sendDataViaWiFi_def wifi_attempts_unrolled wifi_trace_def attempts_made_def
      MAX_UPLOAD_RETRIES_def HTTP_TIMEOUT_def)

text \<open>
  Claim C4 as stated fails: when every POST returns the code 0, which is not negative, the
  function reports failure.
\<close>

theorem wifi_zero_code_counterexample:
  "0 \<le> post_response zero_env 1 \<and> 0 \<le> post_response zero_env 2
   \<and> 0 \<le> post_response zero_env 3
   \<and> \<not> snd (sendDataViaWiFi (boot ''A0B1C2D3E4F5'' True) [] zero_env)"
  by (simp add: sendDataViaWiFi_def wifi_attempts_unrolled zero_env_def)

section \<open>The documents that are posted\<close>

lemma cloud_doc_keys: "map fst (cloud_doc dev h s a g t) = periodic_keys"
  by (simp add: cloud_doc_def json_build_def periodic_keys_def)

lemma emergency_doc_keys:
  "map fst (emergency_doc dev h s a g t) = emergency_keys"
  "map_of (emergency_doc dev h s a g t) ''emergency'' = Some (JBool True)"
  "map_of (emergency_doc dev h s a g t) ''manual_trigger'' = Some (JBool True)"
  by (simp_all add: emergency_doc_def json_build_def emergency_keys_def)

lemma queued_doc_keys:
  "map fst (queued_doc dev slot) = queued_keys"
  "map_of (queued_doc dev slot) ''queued'' = Some (JBool True)"
  by (simp_all add: queued_doc_def json_build_def queued_keys_def)

lemma doc_ok_docs:
  "doc_ok (cloud_doc dev h s a g t)" "doc_ok (emergency_doc dev h s a g t)"
  "doc_ok (queued_doc dev slot)"
  by (simp_all add: doc_ok_def cloud_doc_keys emergency_doc_keys queued_doc_keys)

lemma payloads_append: "payloads (xs @ ys) = payloads xs @ payloads ys"
  by (induction xs rule: payloads.induct) simp_all

lemma posts_ok_log:
  "posts_ok (st\<lparr>http_log := http_log st @ evs\<rparr>) = (posts_ok st \<and> list_all doc_ok (payloads evs))"
  by (simp add: posts_ok_def payloads_append)

lemma wifi_attempts_posts:
  "posts_ok st \<Longrightarrow> doc_ok p \<Longrightarrow> posts_ok (fst (wifi_attempts st p r n))"
proof (induction st p r n rule: wifi_attempts.induct)
  case (1 st payload resp attempt)
  consider (stop) "\<not> attempt \<le> MAX_UPLOAD_RETRIES \<or> resp attempt > 0"
    | (again) "attempt < MAX_UPLOAD_RETRIES" "\<not> resp attempt > 0"
    | (final) "attempt = MAX_UPLOAD_RETRIES" "\<not> resp attempt > 0"
    by linarith
  then show ?case
  proof cases
    case stop
    with "1.prems" show ?thesis
      by (subst wifi_attempts.simps) (auto simp: posts_ok_log)
  next
    case again
    with "1.IH"(1) "1.prems" show ?thesis
      by (subst wifi_attempts.simps) (simp add: posts_ok_log)
  next
    case final
    with "1.IH"(2) "1.prems" show ?thesis
      by (subst wifi_attempts.simps) (simp add: posts_ok_log)
  qed
qed

lemma sendDataViaWiFi_posts:
  "posts_ok st \<Longrightarrow> doc_ok p \<Longrightarrow> posts_ok (fst (sendDataViaWiFi st p e))"
  by (simp add: sendDataViaWiFi_def wifi_attempts_posts posts_ok_log)

lemma sendDataViaGSM_posts:
  "posts_ok st \<Longrightarrow> doc_ok p \<Longrightarrow> posts_ok (fst (sendDataViaGSM st p e))"
  by (simp add: sendDataViaGSM_def Let_def posts_ok_def payloads_append)

lemma sendDataToCloud_posts:
  "posts_ok st \<Longrightarrow> posts_ok (sendDataToCloud st h s a g e)"
proof -
  have q: "posts_ok (queueData x h s a g) = posts_ok x" for x
    by (simp add: posts_ok_def queueData_def)
  show "posts_ok st \<Longrightarrow> posts_ok (sendDataToCloud st h s a g e)"
    by (simp add: sendDataToCloud_def Let_def q sendDataViaWiFi_posts sendDataViaGSM_posts doc_ok_docs)
qed

lemma sendEmergencyDataToCloud_posts:
  "posts_ok st \<Longrightarrow> posts_ok (sendEmergencyDataToCloud st h s a g e)"
  by (simp add: sendEmergencyDataToCloud_def Let_def sendDataViaWiFi_posts sendDataViaGSM_posts
      doc_ok_docs)

lemma upload_slot_posts: "posts_ok st \<Longrightarrow> posts_ok (upload_slot st i e)"
proof -
  have q: "posts_ok (x\<lparr>dataQueue := dq\<rparr>) = posts_ok x" for x dq
    by (simp add: posts_ok_def)
  show "posts_ok st \<Longrightarrow> posts_ok (upload_slot st i e)"
    by (simp add: upload_slot_def Let_def q sendDataViaWiFi_posts sendDataViaGSM_posts doc_ok_docs)
qed

lemma uploadQueuedData_posts: "posts_ok st \<Longrightarrow> posts_ok (uploadQueuedData st envs)"
proof -
  have "posts_ok st \<Longrightarrow> posts_ok (fold (\<lambda>i s. upload_slot s i (envs i)) ns st)" for ns
    by (induction ns arbitrary: st) (simp_all add: upload_slot_posts)
  then show "posts_ok st \<Longrightarrow> posts_ok (uploadQueuedData st envs)"
    by (simp add: uploadQueuedData_def)
qed


lemma sendSMS_log: "http_log (fst (sendSMS st n m r)) = http_log st"
  by (simp add: sendSMS_def Let_def)

lemma triggerEmergency_posts: "posts_ok (triggerEmergency st m r t) = posts_ok st"
  by (simp add: triggerEmergency_def Let_def posts_ok_def sendSMS_log)

lemma checkForIncomingSMS_posts: "posts_ok (checkForIncomingSMS st p) = posts_ok st"
  by (simp add: checkForIncomingSMS_def Let_def posts_ok_def sendSMS_log)

lemma monitor_call_posts: "posts_ok (fst (monitor_call st cs ps)) = posts_ok st"
proof (induction ps arbitrary: st)
  case Nil
  show ?case by simp
next
  case (Cons p ps)
  have "posts_ok (fst (monitor_call (x\<lparr>gsm_tx := tx\<rparr>) cs ps)) = posts_ok x" for x tx
    by (simp add: Cons.IH) (simp add: posts_ok_def)
  then show ?case
    using checkForIncomingSMS_posts [of st "poll_sms p"]
    by (simp add: Let_def) (simp add: posts_ok_def)
qed

lemma handleEmergencyCalls_posts: "posts_ok (handleEmergencyCalls st now ps) = posts_ok st"
proof -
  have "posts_ok (fst (monitor_call (st\<lparr>lastCallTime := t, gsm_tx := tx\<rparr>) now ps)) = posts_ok st"
    for t tx
    by (simp add: monitor_call_posts) (simp add: posts_ok_def)
  moreover have "posts_ok (x\<lparr>gsm_tx := tx\<rparr>) = posts_ok x" for x tx
    by (simp add: posts_ok_def)
  ultimately show ?thesis
    by (simp add: handleEmergencyCalls_def Let_def)
qed

lemma triggerManualEmergency_posts:
  "posts_ok st \<Longrightarrow> posts_ok (triggerManualEmergency st h s a g e)"
proof -
  assume "posts_ok st"
  then have "posts_ok (st\<lparr>emergencyActive := False, emergencyHandled := False\<rparr>)"
    by (simp add: posts_ok_def)
  then show ?thesis
    by (simp add: triggerManualEmergency_def Let_def triggerEmergency_posts
        sendEmergencyDataToCloud_posts)
qed

lemma checkManualEmergencyTrigger_posts:
  assumes "posts_ok st"
  shows "posts_ok (checkManualEmergencyTrigger st h s a g i)"
proof -
  have upd: "posts_ok (x\<lparr>buttonPressed := b\<rparr>) = posts_ok x"
    "posts_ok (x\<lparr>buttonPressed := b, buttonPressStart := t\<rparr>) = posts_ok x"
    "posts_ok (x\<lparr>emergencyActive := False, emergencyHandled := False\<rparr>) = posts_ok x" for x b t
    by (simp_all add: posts_ok_def)
  show ?thesis
    using assms
    by (simp add: checkManualEmergencyTrigger_def Let_def upd triggerManualEmergency_posts)
qed

lemma detect_posts:
  assumes "posts_ok st"
  shows "posts_ok (detect st i)"
proof -
  have ft: "posts_ok (fall_timeout x t) = posts_ok x" for x t
    by (simp add: fall_timeout_def posts_ok_def)
  have fi: "posts_ok (fall_impact x t am gm) = posts_ok x" for x t am gm
    by (simp add: fall_impact_def posts_ok_def)
  have fp: "posts_ok (x\<lparr>fallPending := b\<rparr>) = posts_ok x" for x b
    by (simp add: posts_ok_def)
  have fc: "posts_ok x \<Longrightarrow> posts_ok (fall_confirm x t am h v a g e)" for x t am h v a g e
    by (simp add: fall_confirm_def Let_def fp triggerEmergency_posts sendDataToCloud_posts)
  have vc: "posts_ok x \<Longrightarrow> posts_ok (vitals_check x f h v a g e)" for x f h v a g e
    by (simp add: vitals_check_def Let_def triggerEmergency_posts sendDataToCloud_posts)
  show ?thesis
    using assms by (simp add: detect_def fall_detection_def Let_def ft fi fc vc)
qed

lemma escalate_posts: "posts_ok st \<Longrightarrow> posts_ok (escalate st i h s)"
  by (simp add: escalate_def Let_def handleEmergencyCalls_posts checkForIncomingSMS_posts
      checkManualEmergencyTrigger_posts)

lemma periodic_upload_posts: "posts_ok st \<Longrightarrow> posts_ok (periodic_upload st i h s)"
proof -
  assume a: "posts_ok st"
  then have "posts_ok (st\<lparr>previousMillis := t\<rparr>)" for t
    by (simp add: posts_ok_def)
  with a show ?thesis
    by (simp add: periodic_upload_def sendDataToCloud_posts)
qed

lemma read_vitals_log: "http_log (read_vitals st i) = http_log st"
proof -
  have r: "http_log (spo2_result x j) = http_log x" for x j
    by (simp add: spo2_result_def Let_def)
  have c: "http_log (spo2_collection x j) = http_log x" for x j
    by (simp add: spo2_collection_def Let_def r)
  have b: "http_log (beat_detected x t) = http_log x" for x t
    by (simp add: beat_detected_def Let_def)
  show ?thesis
    by (simp add: read_vitals_def Let_def c b reset_readings_def)
qed

lemma wifi_check_posts: "posts_ok st \<Longrightarrow> posts_ok (wifi_check st i)"
proof -
  assume a: "posts_ok st"
  have k: "posts_ok (x\<lparr>wifiConnected := c\<rparr>) = posts_ok x"
    "posts_ok (x\<lparr>lastWiFiCheck := t\<rparr>) = posts_ok x" for x c t
    by (simp_all add: posts_ok_def)
  from a show ?thesis
    by (simp add: wifi_check_def Let_def k uploadQueuedData_posts)
qed

lemma loop_posts:
  assumes "posts_ok st"
  shows "posts_ok (loop st i)"
proof -
  have "posts_ok (wifi_check st (in_wifi i))"
    by (rule wifi_check_posts [OF assms])
  then have "posts_ok (read_vitals (wifi_check st (in_wifi i)) (in_vitals i))"
    by (simp add: posts_ok_def read_vitals_log)
  then show ?thesis
    by (simp add: loop_def Let_def periodic_upload_posts escalate_posts detect_posts)
qed

lemma run_posts: "posts_ok st \<Longrightarrow> posts_ok (run st is)"
  by (induction st "is" rule: run.induct) (simp_all add: loop_posts)

subsection \<open>Which document each upload function posts\<close>

lemma sendDataViaWiFi_unrolled:
  "sendDataViaWiFi st p e =
     (if wifi_status_connected e
      then (st\<lparr>http_log := http_log st @ wifi_trace p (attempts_made (post_response e))\<rparr>,
            0 < post_response e 1 \<or> 0 < post_response e 2 \<or> 0 < post_response e 3)
      else (st, False))"
  by (simp add: sendDataViaWiFi_def wifi_attempts_unrolled wifi_trace_def)

lemma payloads_separated:
  "payloads (separated (HttpDelay d) (map HttpPost ds)) = ds"
  by (induction ds rule: induct_list012) simp_all

lemma payloads_wifi_trace: "payloads (wifi_trace p n) = replicate n p"
proof -
  have "payloads (separated (HttpDelay 1000) (replicate n (HttpPost p)) @ [HttpEnd]) = replicate n p"
    using payloads_separated [of 1000 "replicate n p"] by (simp add: payloads_append)
  then show ?thesis
    by (simp add: wifi_trace_def)
qed

lemma wifi_step:
  "snd (if wifi_up e then sendDataViaWiFi st doc (wifi e) else (st, False)) = wifi_succeeds e"
  "posted (fst (if wifi_up e then sendDataViaWiFi st doc (wifi e) else (st, False)))
     = posted st @ replicate (wifi_posts e) doc"
  "gprsConnected (fst (if wifi_up e then sendDataViaWiFi st doc (wifi e) else (st, False)))
     = gprsConnected st"
  by (simp_all add: wifi_succeeds_def wifi_posts_def sendDataViaWiFi_unrolled posted_def
      payloads_append payloads_wifi_trace)

lemma gsm_step:
  "posted (fst (sendDataViaGSM x doc (gsm e))) =
     posted x @ replicate (if (gprsConnected x \<or> gprs_init_ok (gsm e)) \<and> http_init_ok (gsm e)
                              \<and> url_ok (gsm e) \<and> download_prompt (gsm e) then 1 else 0) doc"
  by (auto simp: sendDataViaGSM_def Let_def posted_def payloads_append)

lemma upload_posts_cases:
  "wifi_succeeds e \<Longrightarrow> upload_posts st e = wifi_posts e"
  "\<not> wifi_succeeds e \<Longrightarrow>
   upload_posts st e = wifi_posts e
     + (if (gprsConnected st \<or> gprs_init_ok (gsm e)) \<and> http_init_ok (gsm e)
           \<and> url_ok (gsm e) \<and> download_prompt (gsm e) then 1 else 0)"
  by (simp_all add: upload_posts_def gsm_posts_def)

lemma sendDataToCloud_posted:
  "posted (sendDataToCloud st h s a g e) =
     posted st @ replicate (upload_posts st e) (cloud_doc (deviceId st) h s a g (cloud_now e))"
proof -
  have q: "posted (queueData x h s a g) = posted x" for x
    by (simp add: posted_def queueData_def)
  show ?thesis
    by (cases "wifi_succeeds e")
      (simp_all add: sendDataToCloud_def Let_def q wifi_step gsm_step upload_posts_cases
        replicate_add)
qed

lemma sendEmergencyDataToCloud_posted:
  "posted (sendEmergencyDataToCloud st h s a g e) =
     posted st @ replicate (upload_posts st e) (emergency_doc (deviceId st) h s a g (cloud_now e))"
  by (cases "wifi_succeeds e")
    (simp_all add: sendEmergencyDataToCloud_def Let_def wifi_step gsm_step upload_posts_cases
      replicate_add)

lemma upload_slot_posted:
  "posted (upload_slot st i e) =
     posted st @ replicate (if pending (dataQueue st ! i) then upload_posts st e else 0)
                   (queued_doc (deviceId st) (dataQueue st ! i))"
proof -
  have q: "posted (x\<lparr>dataQueue := dq\<rparr>) = posted x" for x dq
    by (simp add: posted_def)
  show ?thesis
    by (cases "wifi_succeeds e")
      (simp_all add: upload_slot_def Let_def q wifi_step gsm_step upload_posts_cases
        replicate_add)
qed

text \<open>
  Claim C6, amended. In any run of the loop from boot, every document posted, over WiFi or
  through the modem, has one of three shapes. The periodic upload has the twelve fields
  from \<^verbatim>\<open>device_id\<close> to \<^verbatim>\<open>gps_long\<close> with \<^verbatim>\<open>timestamp\<close> and no flag. The
  manual emergency upload has the same twelve and the flags \<^verbatim>\<open>emergency\<close> and
  \<^verbatim>\<open>manual_trigger\<close>, both true. The queued retry has the flag \<^verbatim>\<open>queued\<close>, true,
  and the eleven fields other than \<^verbatim>\<open>timestamp\<close>, which the queue does not store.
  Each upload function posts its own shape and nothing else: one call of
  \<^verbatim>\<open>sendDataToCloud\<close> adds to the documents posted only copies of the periodic
  document of the reading it was given, \<^verbatim>\<open>sendEmergencyDataToCloud\<close> only copies of
  the emergency document, and the retry of a queue slot only copies of the queued document
  of that slot, and none when the slot is not pending; the number of copies is the number of
  WiFi attempts plus the one write to the modem.
\<close>

theorem posted_documents:
  "posts_ok (run (boot mac w) is)
   \<and> doc_ok (cloud_doc dev h s a g t) \<and> map fst (cloud_doc dev h s a g t) = periodic_keys
   \<and> doc_ok (emergency_doc dev h s a g t) \<and> map fst (emergency_doc dev h s a g t) = emergency_keys
   \<and> doc_ok (queued_doc dev slot) \<and> map fst (queued_doc dev slot) = queued_keys
   \<and> ''timestamp'' \<notin> set queued_keys
   \<and> posted (sendDataToCloud st h s a g e) =
       posted st @ replicate (upload_posts st e) (cloud_doc (deviceId st) h s a g (cloud_now e))
   \<and> posted (sendEmergencyDataToCloud st h s a g e) =
       posted st @ replicate (upload_posts st e) (emergency_doc (deviceId st) h s a g (cloud_now e))
   \<and> posted (upload_slot st i e) =
       posted st @ replicate (if pending (dataQueue st ! i) then upload_posts st e else 0)
                     (queued_doc (deviceId st) (dataQueue st ! i))"
proof -
  have "posts_ok (boot mac w)"
    by (simp add: posts_ok_def boot_def)
  then have "posts_ok (run (boot mac w) is)"
    by (rule run_posts)
  moreover have "doc_ok (cloud_doc dev h s a g t) \<and> map fst (cloud_doc dev h s a g t) = periodic_keys"
    by (simp add: doc_ok_docs cloud_doc_keys)
  moreover have "doc_ok (emergency_doc dev h s a g t)
      \<and> map fst (emergency_doc dev h s a g t) = emergency_keys"
    by (simp add: doc_ok_docs emergency_doc_keys)
  moreover have "doc_ok (queued_doc dev slot) \<and> map fst (queued_doc dev slot) = queued_keys"
    by (simp add: doc_ok_docs queued_doc_keys)
  moreover have "''timestamp'' \<notin> set queued_keys"
    by (simp add: queued_keys_def)
  moreover note sendDataToCloud_posted [of st h s a g e]
    sendEmergencyDataToCloud_posted [of st h s a g e] upload_slot_posted [of st i e]
  ultimately show ?thesis
    by blast
qed

text \<open>
  Claim C6 as stated fails: the document that \<^verbatim>\<open>uploadQueuedData\<close> posts for a
  pending slot has no field \<^verbatim>\<open>timestamp\<close>.
\<close>

theorem queued_upload_counterexample:
  "HttpPost (queued_doc ''A0B1C2D3E4F5'' (dataQueue st_queued ! 0))
     \<in> set (http_log (uploadQueuedData st_queued (\<lambda>i. env_ok)))
   \<and> pending (dataQueue st_queued ! 0)
   \<and> \<not> has_field (queued_doc ''A0B1C2D3E4F5'' (dataQueue st_queued ! 0)) ''timestamp''"
proof -
  have nf: "\<not> has_field (queued_doc dev slot) ''timestamp''" for dev slot
    by (simp add: has_field_def queued_doc_keys queued_keys_def)
  have p: "pending (dataQueue st_queued ! 0)" "deviceId st_queued = ''A0B1C2D3E4F5''"
    by (simp_all add: st_queued_def queueData_def boot_def slot_of_def DATA_QUEUE_SIZE_def)
  have one: "wifi_attempts x d (\<lambda>n. 200) (Suc 0) = (x\<lparr>http_log := http_log x @ [HttpPost d, HttpEnd]\<rparr>, True)"
    for x d
    by (subst wifi_attempts.simps) (simp add: MAX_UPLOAD_RETRIES_def)
  have up0: "HttpPost (queued_doc ''A0B1C2D3E4F5'' (dataQueue st_queued ! 0))
      \<in> set (http_log (upload_slot st_queued 0 env_ok))"
    using p by (simp add: upload_slot_def Let_def env_ok_def sendDataViaWiFi_def one)
  have mono: "set (http_log x) \<subseteq> set (http_log (upload_slot x i env_ok))" for x i
    by (auto simp: upload_slot_def Let_def env_ok_def sendDataViaWiFi_def one)
  have "set (http_log x) \<subseteq> set (http_log (fold (\<lambda>i s. upload_slot s i env_ok) ns x))" for ns x
  proof (induction ns arbitrary: x)
    case Nil
    show ?case by simp
  next
    case (Cons n ns)
    from mono [of x n] Cons.IH [of "upload_slot x n env_ok"] show ?case
      by simp
  qed
  from this [of "upload_slot st_queued 0 env_ok" "[1..<DATA_QUEUE_SIZE]"] up0
  have "HttpPost (queued_doc ''A0B1C2D3E4F5'' (dataQueue st_queued ! 0))
     \<in> set (http_log (uploadQueuedData st_queued (\<lambda>i. env_ok)))"
    by (auto simp: uploadQueuedData_def DATA_QUEUE_SIZE_def upt_conv_Cons)
  with p nf show ?thesis by simp
qed

section \<open>The escalation and the detectors leave the acquisition alone\<close>

lemma sendSMS_vitals: "vitals_of (fst (sendSMS st n m r)) = vitals_of st"
  by (simp add: sendSMS_def Let_def vitals_of_def)

lemma triggerEmergency_vitals: "vitals_of (triggerEmergency st m r t) = vitals_of st"
proof -
  have "vitals_of (x\<lparr>lastCallTime := c\<rparr>) = vitals_of x"
    "vitals_of (x\<lparr>emergencyActive := a, emergencyHandled := h\<rparr>) = vitals_of x" for x c a h
    by (simp_all add: vitals_of_def)
  then show ?thesis
    by (simp add: triggerEmergency_def Let_def sendSMS_vitals)
qed

lemma gsm_tx_vitals: "vitals_of (x\<lparr>gsm_tx := tx\<rparr>) = vitals_of x"
  by (simp add: vitals_of_def)

lemma flags_vitals: "vitals_of (x\<lparr>emergencyActive := a, emergencyHandled := h\<rparr>) = vitals_of x"
  by (simp add: vitals_of_def)

lemma checkForIncomingSMS_vitals: "vitals_of (checkForIncomingSMS st p) = vitals_of st"
  by (simp add: checkForIncomingSMS_def Let_def sendSMS_vitals gsm_tx_vitals flags_vitals)

lemma monitor_call_vitals: "vitals_of (fst (monitor_call st cs ps)) = vitals_of st"
proof (induction ps arbitrary: st)
  case Nil
  show ?case by simp
next
  case (Cons p ps)
  have "vitals_of (x\<lparr>gsm_tx := tx, emergencyActive := a, emergencyHandled := h\<rparr>) = vitals_of x"
    for x tx a h
    by (simp add: vitals_of_def)
  then show ?case
    by (simp add: Let_def Cons.IH gsm_tx_vitals checkForIncomingSMS_vitals)
qed

lemma handleEmergencyCalls_vitals: "vitals_of (handleEmergencyCalls st now ps) = vitals_of st"
proof -
  have "vitals_of (st\<lparr>lastCallTime := t, gsm_tx := tx\<rparr>) = vitals_of st" for t tx
    by (simp add: vitals_of_def)
  then show ?thesis
    by (simp add: handleEmergencyCalls_def Let_def monitor_call_vitals gsm_tx_vitals)
qed

lemma triggerManualEmergency_vitals:
  "vitals_of (triggerManualEmergency st h s a g e) = vitals_of st"
  by (simp add: triggerManualEmergency_def Let_def triggerEmergency_vitals
      sendEmergencyDataToCloud_keeps flags_vitals)

lemma checkManualEmergencyTrigger_vitals:
  "vitals_of (checkManualEmergencyTrigger st h s a g i) = vitals_of st"
proof -
  have upd: "vitals_of (x\<lparr>buttonPressed := b\<rparr>) = vitals_of x"
    "vitals_of (x\<lparr>buttonPressed := b, buttonPressStart := t\<rparr>) = vitals_of x" for x b t
    by (simp_all add: vitals_of_def)
  show ?thesis
    by (simp add: checkManualEmergencyTrigger_def Let_def upd flags_vitals
        triggerManualEmergency_vitals)
qed

lemma detect_vitals: "vitals_of (detect st i) = vitals_of st"
proof -
  have ft: "vitals_of (fall_timeout x t) = vitals_of x" for x t
    by (simp add: fall_timeout_def vitals_of_def)
  have fi: "vitals_of (fall_impact x t am gm) = vitals_of x" for x t am gm
    by (simp add: fall_impact_def vitals_of_def)
  have fp: "vitals_of (x\<lparr>fallPending := b\<rparr>) = vitals_of x" for x b
    by (simp add: vitals_of_def)
  have fc: "vitals_of (fall_confirm x t am h v a g e) = vitals_of x" for x t am h v a g e
    by (simp add: fall_confirm_def Let_def fp triggerEmergency_vitals sendDataToCloud_keeps)
  have vc: "vitals_of (vitals_check x f h v a g e) = vitals_of x" for x f h v a g e
    by (simp add: vitals_check_def Let_def triggerEmergency_vitals sendDataToCloud_keeps)
  show ?thesis
    by (simp add: detect_def fall_detection_def Let_def ft fi fc vc)
qed

lemma escalate_vitals: "vitals_of (escalate st i h s) = vitals_of st"
  by (simp add: escalate_def Let_def handleEmergencyCalls_vitals checkForIncomingSMS_vitals
      checkManualEmergencyTrigger_vitals)

lemma periodic_upload_vitals: "vitals_of (periodic_upload st i h s) = vitals_of st"
proof -
  have "vitals_of (st\<lparr>previousMillis := t\<rparr>) = vitals_of st" for t
    by (simp add: vitals_of_def)
  then show ?thesis
    by (simp add: periodic_upload_def sendDataToCloud_keeps)
qed

lemma loop_vitals:
  "vitals_of (loop st i) = vitals_of (read_vitals (wifi_check st (in_wifi i)) (in_vitals i))"
  by (simp add: loop_def Let_def periodic_upload_vitals escalate_vitals detect_vitals)

section \<open>The beat history stays in range\<close>

lemma beat_inv_cong: "vitals_of s = vitals_of t \<Longrightarrow> beat_inv s = beat_inv t"
  by (simp add: vitals_of_def beat_inv_def valid_entries_def)

lemma beat_inv_boot: "beat_inv (boot mac w)"
  by (simp add: beat_inv_def boot_def valid_entries_def RATE_SIZE_def list_all_iff)

lemma beat_inv_reset: "beat_inv (reset_readings st)"
  by (simp add: beat_inv_def reset_readings_def valid_entries_def RATE_SIZE_def list_all_iff)

lemma stored_byte:
  assumes "40 \<le> b" and "b \<le> (180::real)"
  shows "in_range (nat \<lfloor>b\<rfloor> mod 256)"
proof -
  have "40 \<le> \<lfloor>b\<rfloor>" "\<lfloor>b\<rfloor> \<le> 180"
    using assms by (simp_all add: le_floor_iff floor_le_iff)
  then have "40 \<le> nat \<lfloor>b\<rfloor>" "nat \<lfloor>b\<rfloor> \<le> 180"
    by linarith+
  then show ?thesis
    by (simp add: in_range_def)
qed

lemma sum_in_range:
  "list_all in_range ys \<Longrightarrow>
   40 * int (length ys) \<le> sum_list (map int ys) \<and> sum_list (map int ys) \<le> 180 * int (length ys)"
  by (induction ys) (auto simp: in_range_def)

lemma mean_in_range:
  assumes "list_all in_range ys" and "ys \<noteq> []"
  shows "40 \<le> sum_list (map int ys) div int (length ys)"
    and "sum_list (map int ys) div int (length ys) \<le> 180"
proof -
  let ?n = "int (length ys)"
  have n: "0 < ?n" using assms(2) by simp
  from sum_in_range [OF assms(1)]
  have lo: "40 * ?n \<le> sum_list (map int ys)" and hi: "sum_list (map int ys) \<le> 180 * ?n"
    by simp_all
  from lo n have "(40 * ?n) div ?n \<le> sum_list (map int ys) div ?n"
    by (intro zdiv_mono1) simp_all
  with n show "40 \<le> sum_list (map int ys) div ?n" by simp
  from hi n have "sum_list (map int ys) div ?n \<le> (180 * ?n) div ?n"
    by (intro zdiv_mono1) simp_all
  with n show "sum_list (map int ys) div ?n \<le> 180" by simp
qed

lemma take_update_all:
  assumes "list_all P (take n xs)" and "P v" and "i < length xs" and "n \<le> length xs"
    and "i \<le> n"
  shows "list_all P (take (if i = n then Suc n else n) (xs[i := v]))"
proof (cases "i = n")
  case True
  then have "take (Suc n) (xs[i := v]) = take n xs @ [v]"
    using assms(3) by (simp add: take_Suc_conv_app_nth)
  with True assms(1,2) show ?thesis by simp
next
  case False
  have "list_all P ((take n xs)[i := v])"
    using assms(1,2) by (auto simp: list_all_iff dest: set_update_subset_insert [THEN subsetD])
  with False show ?thesis by (simp add: take_update_swap)
qed


lemma beat_inv_beat_detected:
  assumes "beat_inv st"
  shows "beat_inv (beat_detected st now)"
proof -
  define bpm :: real where "bpm = 60 / (real_of_int (sint (now - lastBeat st)) / 1000)"
  define st1 where "st1 = st\<lparr>lastBeat := now\<rparr>"
  have inv1: "beat_inv st1"
    using assms by (simp add: st1_def beat_inv_def valid_entries_def)
  show ?thesis
  proof (cases "40 \<le> bpm \<and> bpm \<le> 180")
    case False
    then have "beat_detected st now = st1"
      by (auto simp: beat_detected_def Let_def bpm_def st1_def)
    with inv1 show ?thesis by simp
  next
    case True
    define v where "v = nat \<lfloor>bpm\<rfloor> mod 256"
    define c where "c = nat (validBeatCount st)"
    define cnt where "cnt = (if c < RATE_SIZE then Suc c else c)"
    define rs where "rs = (rates st)[rateSpot st := v]"
    have v: "in_range v"
      using True by (simp add: v_def stored_byte)
    from assms have len: "length (rates st) = RATE_SIZE" and spot: "rateSpot st < RATE_SIZE"
      and c8: "c \<le> RATE_SIZE" and vc: "validBeatCount st = int c"
      and sp: "c = RATE_SIZE \<or> rateSpot st = c"
      and old: "list_all in_range (take c (rates st))"
      and zeros: "list_all (\<lambda>r. r = 0) (drop c (rates st))"
      by (auto simp: beat_inv_def valid_entries_def c_def)
    have spot_le: "rateSpot st \<le> c"
      using sp spot by auto
    have cnt_if: "cnt = (if rateSpot st = c then Suc c else c)"
      using sp spot by (auto simp: cnt_def)
    have new: "list_all in_range (take cnt rs)"
      unfolding cnt_if rs_def
      using take_update_all [OF old v, of "rateSpot st"] spot len c8 spot_le by simp
    have cnt8: "cnt \<le> RATE_SIZE" "0 < cnt"
      using c8 by (auto simp: cnt_def RATE_SIZE_def)
    have zeros': "list_all (\<lambda>r. r = 0) (drop cnt rs)"
    proof (cases "c < RATE_SIZE")
      case True
      with sp have "rateSpot st = c" by simp
      moreover have "set (drop (Suc c) (rates st)) \<subseteq> set (drop c (rates st))"
        by (rule set_drop_subset_set_drop) simp
      ultimately show ?thesis
        using True zeros by (auto simp: cnt_def rs_def drop_update_cancel list_all_iff)
    next
      case False
      with c8 len show ?thesis
        by (simp add: cnt_def rs_def)
    qed
    have lenrs: "length (take cnt rs) = cnt"
      using cnt8 len by (simp add: rs_def)
    then have ne: "take cnt rs \<noteq> []"
      using cnt8 by auto
    define avg where "avg = sum_list (map int (take cnt rs)) div int cnt"
    have avg: "40 \<le> avg" "avg \<le> 180"
      using mean_in_range [OF new ne, unfolded lenrs] by (simp_all add: avg_def)
    have spot': "(rateSpot st + 1) mod RATE_SIZE < RATE_SIZE"
      by (simp add: RATE_SIZE_def)
    have sp': "cnt = RATE_SIZE \<or> (rateSpot st + 1) mod RATE_SIZE = cnt"
    proof (cases "c < RATE_SIZE")
      case less: True
      then have r: "rateSpot st = c" using sp by simp
      show ?thesis
      proof (cases "Suc c = RATE_SIZE")
        case True
        with less show ?thesis by (simp add: cnt_def)
      next
        case False
        with less have "Suc c < RATE_SIZE" by simp
        then show ?thesis using r less by (simp add: cnt_def)
      qed
    next
      case False
      with c8 show ?thesis by (simp add: cnt_def)
    qed
    have eq: "beat_detected st now =
        st1\<lparr>rates := rs, rateSpot := (rateSpot st + 1) mod RATE_SIZE, validBeatCount := int cnt,
            beatAvg := avg, lastValidHR := real_of_int avg\<rparr>"
    proof -
      have n1: "nat (int c + 1) = Suc c" "nat (1 + int c) = Suc c" by simp_all
      show ?thesis
        using True vc
        by (auto simp: beat_detected_def Let_def bpm_def st1_def rs_def v_def avg_def cnt_def
            n1 ac_simps)
    qed
    show ?thesis
      unfolding eq
      using new zeros' avg cnt8 spot' sp' len
      by (simp add: beat_inv_def valid_entries_def st1_def avg_def rs_def)
  qed
qed

lemma beat_inv_spo2_result: "beat_inv st \<Longrightarrow> beat_inv (spo2_result st i)"
  by (auto simp: spo2_result_def Let_def beat_inv_def valid_entries_def)

lemma beat_inv_spo2_collection:
  assumes "beat_inv st"
  shows "beat_inv (spo2_collection st i)"
proof -
  have k: "beat_inv (x\<lparr>spo2CollectionActive := c\<rparr>) = beat_inv x"
    "beat_inv (x\<lparr>spo2SampleIndex := n\<rparr>) = beat_inv x"
    "beat_inv (x\<lparr>lastSpo2Sample := t\<rparr>) = beat_inv x"
    "beat_inv (x\<lparr>lastSpO2Calc := t\<rparr>) = beat_inv x" for x c n t
    by (simp_all add: beat_inv_def valid_entries_def)
  show ?thesis
    using assms by (simp add: spo2_collection_def Let_def k beat_inv_spo2_result)
qed

lemma beat_inv_read_vitals:
  assumes "beat_inv st"
  shows "beat_inv (read_vitals st i)"
proof -
  have k: "beat_inv (x\<lparr>wasFingerDetected := c\<rparr>) = beat_inv x" for x c
    by (simp add: beat_inv_def valid_entries_def)
  show ?thesis
    using assms
    by (simp add: read_vitals_def Let_def k beat_inv_spo2_collection beat_inv_beat_detected
        beat_inv_reset)
qed

lemma beat_inv_loop:
  assumes "beat_inv st"
  shows "beat_inv (loop st i)"
proof -
  have "beat_inv (wifi_check st (in_wifi i))"
    using assms beat_inv_cong wifi_check_keeps by blast
  then have "beat_inv (read_vitals (wifi_check st (in_wifi i)) (in_vitals i))"
    by (rule beat_inv_read_vitals)
  then show ?thesis
    using beat_inv_cong [OF loop_vitals] by simp
qed

lemma beat_inv_run: "beat_inv st \<Longrightarrow> beat_inv (run st is)"
  by (induction st "is" rule: run.induct) (simp_all add: beat_inv_loop)

text \<open>
  Claim C8. After any run of the loop from boot, every valid entry of the beat history is
  between 40 and 180 and every other entry of the array is 0; when there is at least one
  valid entry, the average is the integer mean of the valid entries, and the average and
  the cached heart rate that the pass reports are between 40 and 180.
\<close>

theorem beat_history_in_range:
  "list_all in_range (valid_entries (run (boot mac w) is))
   \<and> list_all (\<lambda>r. r = 0 \<or> in_range r) (rates (run (boot mac w) is))
   \<and> (validBeatCount (run (boot mac w) is) = 0
       \<or> (40 \<le> beatAvg (run (boot mac w) is) \<and> beatAvg (run (boot mac w) is) \<le> 180
           \<and> beatAvg (run (boot mac w) is)
               = sum_list (map int (valid_entries (run (boot mac w) is)))
                   div validBeatCount (run (boot mac w) is)
           \<and> 40 \<le> lastValidHR (run (boot mac w) is)
           \<and> lastValidHR (run (boot mac w) is) \<le> 180))"
proof -
  let ?st = "run (boot mac w) is"
  have inv: "beat_inv ?st"
    by (rule beat_inv_run [OF beat_inv_boot])
  then have a: "list_all in_range (take (nat (validBeatCount ?st)) (rates ?st))"
    and b: "list_all (\<lambda>r. r = 0) (drop (nat (validBeatCount ?st)) (rates ?st))"
    by (simp_all add: beat_inv_def valid_entries_def)
  have "set (rates ?st) =
      set (take (nat (validBeatCount ?st)) (rates ?st)) \<union> set (drop (nat (validBeatCount ?st)) (rates ?st))"
    by (metis append_take_drop_id set_append)
  with a b have "list_all (\<lambda>r. r = 0 \<or> in_range r) (rates ?st)"
    by (auto simp: list_all_iff)
  with inv show ?thesis
    by (simp add: beat_inv_def)
qed

section \<open>Loss of contact\<close>

lemma cleared_cong: "vitals_of s = vitals_of t \<Longrightarrow> cleared s = cleared t"
  by (simp add: vitals_of_def cleared_def)

lemma read_vitals_no_contact:
  assumes "\<not> fingerDetected i" and "wasFingerDetected st \<or> cleared st"
  shows "cleared (read_vitals st i)"
  using assms
  by (auto simp: read_vitals_def Let_def spo2_collection_def reset_readings_def cleared_def)

lemma loop_no_contact:
  assumes "no_contact i" and "wasFingerDetected st \<or> cleared st"
  shows "cleared (loop st i)"
proof -
  have "vitals_of (wifi_check st (in_wifi i)) = vitals_of st"
    by (simp add: wifi_check_keeps)
  then have "wasFingerDetected (wifi_check st (in_wifi i)) \<or> cleared (wifi_check st (in_wifi i))"
    using assms(2) by (auto simp: vitals_of_def cleared_def)
  then have "cleared (read_vitals (wifi_check st (in_wifi i)) (in_vitals i))"
    using assms(1) by (simp add: no_contact_def read_vitals_no_contact)
  then show ?thesis
    using cleared_cong [OF loop_vitals] by simp
qed

lemma report_no_contact: "no_contact i \<Longrightarrow> report st i = (0, 0)"
  by (simp add: report_def no_contact_def currentHR_def currentSpO2_def Let_def)

lemma run_no_contact:
  "list_all no_contact is \<Longrightarrow> wasFingerDetected st \<or> cleared st \<Longrightarrow>
   (is = [] \<or> cleared (run st is)) \<and> list_all (\<lambda>r. r = (0, 0)) (reports st is)"
proof (induction st "is" rule: run.induct)
  case (1 st)
  show ?case by simp
next
  case (2 st i "is")
  from "2.prems" have c: "cleared (loop st i)"
    by (simp add: loop_no_contact)
  with "2.IH" "2.prems" show ?case
    by (cases "is") (auto simp: report_no_contact)
qed

text \<open>
  Claim C3. The previous pass had contact, and this pass and the passes after it have none.
  Then after this pass every entry of the history is 0, the count, the average and the two
  cached values are 0, and they are still so after the later passes; in this pass and in
  each later one the reported heart rate and SpO2 are 0.
\<close>

theorem contact_loss_clears:
  assumes "wasFingerDetected st" and "list_all no_contact (i # is)"
  shows "cleared (loop st i) \<and> cleared (run st (i # is))
         \<and> list_all (\<lambda>r. r = (0, 0)) (reports st (i # is))"
  using assms loop_no_contact [of i st] run_no_contact [of "i # is" st]
  by simp

lemma wifi_check_connected:
  "wifiConnected st \<Longrightarrow> wifi_check st (in_wifi (pass_at t ir b a g)) = st"
  by (simp add: wifi_check_def pass_at_def)


lemma rates8: "replicate RATE_SIZE (0::nat) = [0, 0, 0, 0, 0, 0, 0, 0]"
  by (simp add: RATE_SIZE_def eval_nat_numeral)

lemma spo2_collection_no_sample:
  "\<not> sample_available i \<Longrightarrow> vitals_of (spo2_collection st i) = vitals_of st"
  by (simp add: spo2_collection_def Let_def vitals_of_def)

lemma vitals_st_contact:
  "vitals_of st_contact = ([80, 0, 0, 0, 0, 0, 0, 0], 1, 750, 80, 1, 0, 80, True)"
proof -
  let ?B = "boot ''A0B1C2D3E4F5'' True"
  let ?iv = "in_vitals (pass_at 750 60000 True at_rest no_turn)"
  have b: "wifiConnected ?B" by (simp add: boot_def)
  have iv: "fingerDetected ?iv" "beat ?iv" "v_now ?iv = 750" "\<not> sample_available ?iv"
    by (simp_all add: pass_at_def fingerDetected_def)
  have "vitals_of st_contact = vitals_of (read_vitals ?B ?iv)"
    unfolding st_contact_def loop_vitals wifi_check_connected [OF b] ..
  also have "\<dots> = vitals_of (beat_detected (?B\<lparr>wasFingerDetected := True\<rparr>) 750)"
    using iv by (simp add: read_vitals_def Let_def spo2_collection_no_sample)
  also have "\<dots> = ([80, 0, 0, 0, 0, 0, 0, 0], 1, 750, 80, 1, 0, 80, True)"
    by (simp add: beat_detected_def boot_def Let_def vitals_of_def rates8) (simp add: RATE_SIZE_def)
  finally show ?thesis .
qed

theorem contact_loss_clears_witness:
  "wasFingerDetected st_contact \<and> rates st_contact = [80, 0, 0, 0, 0, 0, 0, 0]
   \<and> validBeatCount st_contact = 1 \<and> lastValidHR st_contact = 80
   \<and> list_all no_contact
        [pass_at 4000 1200 False at_rest no_turn, pass_at 7000 1300 True at_rest no_turn]
   \<and> cleared (run st_contact
        [pass_at 4000 1200 False at_rest no_turn, pass_at 7000 1300 True at_rest no_turn])
   \<and> list_all (\<lambda>r. r = (0, 0)) (reports st_contact
        [pass_at 4000 1200 False at_rest no_turn, pass_at 7000 1300 True at_rest no_turn])"
proof -
  have v: "wasFingerDetected st_contact" "rates st_contact = [80, 0, 0, 0, 0, 0, 0, 0]"
    "validBeatCount st_contact = 1" "lastValidHR st_contact = 80"
    using vitals_st_contact by (simp_all add: vitals_of_def)
  have n: "list_all no_contact
        [pass_at 4000 1200 False at_rest no_turn, pass_at 7000 1300 True at_rest no_turn]"
    by (simp add: no_contact_def pass_at_def fingerDetected_def)
  from contact_loss_clears [OF v(1) n] v n show ?thesis
    by blast
qed

section \<open>The fall detector\<close>

lemma magnitudes:
  "magnitude impact = 30" "magnitude tumble = 250" "magnitude at_rest = 5" "magnitude no_turn = 0"
proof -
  have "sqrt 900 = 30" "sqrt 62500 = 250" "sqrt 25 = 5"
    by (rule real_sqrt_unique; simp)+
  then show "magnitude impact = 30" "magnitude tumble = 250" "magnitude at_rest = 5"
    "magnitude no_turn = 0"
    by (simp_all add: magnitude_def impact_def tumble_def at_rest_def no_turn_def)
qed

lemma periodic_upload_alarm: "alarm_of (periodic_upload st i h s) = alarm_of st"
proof -
  have "alarm_of (st\<lparr>previousMillis := t\<rparr>) = alarm_of st" for t
    by (simp add: alarm_of_def)
  then show ?thesis
    by (simp add: periodic_upload_def sendDataToCloud_keeps)
qed

lemma escalate_quiet:
  "escalate st (pass_at t ir b a g) h s =
     (if emergencyActive st \<and> \<not> emergencyHandled st
      then handleEmergencyCalls st (t + 2000) [] else st)\<lparr>buttonPressed := False\<rparr>"
  by (simp add: escalate_def checkForIncomingSMS_def checkManualEmergencyTrigger_def pass_at_def
      Let_def)

lemma handleEmergencyCalls_no_polls:
  "emergencyActive (handleEmergencyCalls st now []) = emergencyActive st"
  "emergencyHandled (handleEmergencyCalls st now []) = emergencyHandled st"
  "fallPending (handleEmergencyCalls st now []) = fallPending st"
  "fallDetectedTime (handleEmergencyCalls st now []) = fallDetectedTime st"
  "set (gsm_tx st) \<subseteq> set (gsm_tx (handleEmergencyCalls st now []))"
  by (auto simp: handleEmergencyCalls_def Let_def)

text \<open>What a quiet pass does to the flags, the candidate and the trace, after the detectors.\<close>

lemma loop_quiet:
  fixes st t ir b a g
  defines "p \<equiv> pass_at t ir b a g"
  defines "d \<equiv> detect (read_vitals (wifi_check st (in_wifi p)) (in_vitals p)) p"
  shows "emergencyActive (loop st p) = emergencyActive d"
    and "emergencyHandled (loop st p) = emergencyHandled d"
    and "fallPending (loop st p) = fallPending d"
    and "fallDetectedTime (loop st p) = fallDetectedTime d"
    and "set (gsm_tx d) \<subseteq> set (gsm_tx (loop st p))"
proof -
  define hr_v where "hr_v = currentHR (read_vitals (wifi_check st (in_wifi p)) (in_vitals p)) (in_vitals p)"
  define sp_v where "sp_v = currentSpO2 (read_vitals (wifi_check st (in_wifi p)) (in_vitals p)) (in_vitals p)"
  define e where "e = escalate d p hr_v sp_v"
  have l: "loop st p = periodic_upload e p hr_v sp_v"
    by (simp add: loop_def Let_def e_def d_def hr_v_def sp_v_def)
  have a: "alarm_of (loop st p) = alarm_of e"
    by (simp add: l periodic_upload_alarm)
  have e': "e = (if emergencyActive d \<and> \<not> emergencyHandled d
      then handleEmergencyCalls d (t + 2000) [] else d)\<lparr>buttonPressed := False\<rparr>"
    unfolding e_def p_def by (rule escalate_quiet)
  have "emergencyActive e = emergencyActive d" "emergencyHandled e = emergencyHandled d"
    "fallPending e = fallPending d" "fallDetectedTime e = fallDetectedTime d"
    "set (gsm_tx d) \<subseteq> set (gsm_tx e)"
    using handleEmergencyCalls_no_polls [of d "t + 2000"] by (auto simp: e')
  with a show "emergencyActive (loop st p) = emergencyActive d"
    and "emergencyHandled (loop st p) = emergencyHandled d"
    and "fallPending (loop st p) = fallPending d"
    and "fallDetectedTime (loop st p) = fallDetectedTime d"
    and "set (gsm_tx d) \<subseteq> set (gsm_tx (loop st p))"
    by (simp_all add: alarm_of_def)
qed

lemma vitals_check_no_finger: "vitals_check st False h s a g e = st"
  by (simp add: vitals_check_def)

lemma detect_impact:
  assumes "\<not> fallPending st" "\<not> emergencyActive st" "\<not> emergencyHandled st"
    and "magnitude (in_accel p) > ACCEL_FALL_THRESH" "magnitude (in_gyro p) > GYRO_FALL_THRESH"
    and "\<not> fingerDetected (in_vitals p)"
  shows "detect st p = st\<lparr>fallPending := True, fallDetectedTime := in_now p\<rparr>"
  using assms
  by (simp add: detect_def fall_detection_def fall_impact_def fall_confirm_def fall_timeout_def
      Let_def vitals_check_no_finger FALL_CONFIRM_DELAY_def)

lemma detect_confirm_late:
  assumes "fallPending st" "\<not> emergencyActive st" "\<not> emergencyHandled st"
    and "FALL_CONFIRM_DELAY \<le> in_now p - fallDetectedTime st"
    and "magnitude (in_accel p) < POST_FALL_STILLNESS_THRESH"
    and "\<not> fingerDetected (in_vitals p)" and "al_reply (in_fall p) \<noteq> NoPrompt"
  shows "emergencyActive (detect st p) \<and> \<not> emergencyHandled (detect st p)
    \<and> \<not> fallPending (detect st p) \<and> GPrintMsg FALL_MSG \<in> set (gsm_tx (detect st p))"
proof -
  define hr_v where "hr_v = currentHR st (in_vitals p)"
  define sp_v where "sp_v = currentSpO2 st (in_vitals p)"
  define s1 where "s1 = triggerEmergency (st\<lparr>fallPending := False\<rparr>) FALL_MSG
      (al_reply (in_fall p)) (al_now (in_fall p))"
  define s2 where "s2 = sendDataToCloud s1 hr_v sp_v (in_accel p) (in_gyro p) (al_upload (in_fall p))"
  have i: "fall_impact st (in_now p) (magnitude (in_accel p)) (magnitude (in_gyro p)) = st"
    using assms(1) by (simp add: fall_impact_def)
  have c: "fall_confirm st (in_now p) (magnitude (in_accel p)) hr_v sp_v (in_accel p) (in_gyro p)
      (in_fall p) = s2"
    using assms by (simp add: fall_confirm_def Let_def s1_def s2_def)
  have s1: "emergencyActive s1" "\<not> emergencyHandled s1" "\<not> fallPending s1"
    "GPrintMsg FALL_MSG \<in> set (gsm_tx s1)"
    using assms(2,3,7) by (auto simp: s1_def triggerEmergency_def sendSMS_def Let_def)
  have "alarm_of s2 = alarm_of s1"
    by (simp add: s2_def sendDataToCloud_keeps)
  with s1 have s2: "emergencyActive s2" "\<not> emergencyHandled s2" "\<not> fallPending s2"
    "GPrintMsg FALL_MSG \<in> set (gsm_tx s2)"
    by (simp_all add: alarm_of_def)
  then have t: "fall_timeout s2 (in_now p) = s2"
    by (simp add: fall_timeout_def)
  have "detect st p = s2"
    using assms(6)
    by (simp add: detect_def fall_detection_def Let_def i c [unfolded hr_v_def sp_v_def] t
        vitals_check_no_finger)
  with s2 show ?thesis by simp
qed


lemma pass_at_fields:
  "in_now (pass_at t ir b a g) = t" "in_accel (pass_at t ir b a g) = a"
  "in_gyro (pass_at t ir b a g) = g" "al_reply (in_fall (pass_at t ir b a g)) = SmsConfirmed"
  "fingerDetected (in_vitals (pass_at t ir b a g)) = (ir > 50000)"
  by (simp_all add: pass_at_def alert_ok_def fingerDetected_def)

lemma alarm_before_detect:
  "alarm_of (read_vitals (wifi_check st w) v) = alarm_of st"
  by (simp add: read_vitals_alarm wifi_check_keeps)

text \<open>
  Claim C1. The source ends the fall detector with a timeout that is to drop a candidate
  after one second, but the confirmation comes first and resolves every candidate that is
  at least \<^verbatim>\<open>FALL_CONFIRM_DELAY\<close> old, so the timeout never acts (lemma
  \<open>fall_timeout_unreachable\<close> below). Here the loop runs twice from boot: the first pass
  sees the impact and opens a candidate at 120000 ms, the second pass comes at 125000 ms
  and sees the wearer still. More than one second has passed, and the fall is confirmed:
  the emergency is Active and the FALL message has been written to the modem.
\<close>

theorem fall_confirmed_after_timeout:
  "fallPending st_impact \<and> fallDetectedTime st_impact = 120000
   \<and> \<not> emergencyActive st_impact \<and> \<not> emergencyHandled st_impact
   \<and> 1000 < 125000 - fallDetectedTime st_impact
   \<and> magnitude at_rest < POST_FALL_STILLNESS_THRESH
   \<and> emergencyActive st_late \<and> \<not> fallPending st_late
   \<and> GPrintMsg FALL_MSG \<in> set (gsm_tx st_late)"
proof -
  let ?B = "boot ''A0B1C2D3E4F5'' True"
  let ?p1 = "pass_at 120000 1200 False impact tumble"
  let ?p2 = "pass_at 125000 1200 False at_rest no_turn"
  let ?x1 = "read_vitals (wifi_check ?B (in_wifi ?p1)) (in_vitals ?p1)"
  let ?x2 = "read_vitals (wifi_check st_impact (in_wifi ?p2)) (in_vitals ?p2)"
  have "alarm_of ?x1 = alarm_of ?B"
    by (rule alarm_before_detect)
  then have x1: "\<not> fallPending ?x1" "\<not> emergencyActive ?x1" "\<not> emergencyHandled ?x1"
    by (simp_all add: alarm_of_def boot_def)
  have d1: "detect ?x1 ?p1 = ?x1\<lparr>fallPending := True, fallDetectedTime := 120000\<rparr>"
    using detect_impact [OF x1, of ?p1]
    by (simp add: pass_at_fields magnitudes ACCEL_FALL_THRESH_def GYRO_FALL_THRESH_def)
  have s1: "fallPending st_impact" "fallDetectedTime st_impact = 120000"
    "\<not> emergencyActive st_impact" "\<not> emergencyHandled st_impact"
    unfolding st_impact_def using loop_quiet(1-4) [of ?B 120000 1200 False impact tumble] x1
    by (simp_all add: d1)
  have "alarm_of ?x2 = alarm_of st_impact"
    by (rule alarm_before_detect)
  with s1 have x2: "fallPending ?x2" "\<not> emergencyActive ?x2" "\<not> emergencyHandled ?x2"
    "fallDetectedTime ?x2 = 120000"
    by (simp_all add: alarm_of_def)
  have still: "magnitude at_rest < POST_FALL_STILLNESS_THRESH"
    by (simp add: magnitudes POST_FALL_STILLNESS_THRESH_def)
  have d2: "emergencyActive (detect ?x2 ?p2) \<and> \<not> emergencyHandled (detect ?x2 ?p2)
    \<and> \<not> fallPending (detect ?x2 ?p2) \<and> GPrintMsg FALL_MSG \<in> set (gsm_tx (detect ?x2 ?p2))"
    by (rule detect_confirm_late [OF x2(1,2,3)])
      (simp_all add: pass_at_fields x2(4) still FALL_CONFIRM_DELAY_def)
  have s2: "emergencyActive st_late" "\<not> fallPending st_late"
    "GPrintMsg FALL_MSG \<in> set (gsm_tx st_late)"
    unfolding st_late_def
    using loop_quiet(1,3,5) [of st_impact 125000 1200 False at_rest no_turn] d2
    by auto
  from s1 s2 still show ?thesis
    by simp
qed


lemma fall_timeout_unreachable:
  "fall_timeout (fall_confirm st now am h s a g e) now = fall_confirm st now am h s a g e"
proof (cases "fallPending st \<and> FALL_CONFIRM_DELAY \<le> now - fallDetectedTime st")
  case True
  have "alarm_of (sendDataToCloud x h s a g u) = alarm_of x" for x u
    by (simp add: sendDataToCloud_keeps)
  then have k: "fallPending (sendDataToCloud x h s a g u) = fallPending x" for x u
    by (simp add: alarm_of_def)
  have "\<not> fallPending (triggerEmergency (st\<lparr>fallPending := False\<rparr>) m r t)" for m r t
    by (simp add: triggerEmergency_def sendSMS_def Let_def)
  with True have "\<not> fallPending (fall_confirm st now am h s a g e)"
    by (simp add: fall_confirm_def Let_def k)
  then show ?thesis
    by (simp add: fall_timeout_def)
next
  case False
  then have c: "fall_confirm st now am h s a g e = st"
    by (auto simp: fall_confirm_def)
  have "\<not> (fallPending st \<and> 1000 < now - fallDetectedTime st)"
  proof
    assume a: "fallPending st \<and> 1000 < now - fallDetectedTime st"
    with False have "now - fallDetectedTime st < 300"
      by (simp add: FALL_CONFIRM_DELAY_def not_le)
    with a show False
      by (simp add: word_less_nat_alt)
  qed
  then show ?thesis
    by (simp add: c fall_timeout_def)
qed

end
